theory Spec2Isabelle
  imports Complex_Main "HOL-Library.Word"
begin

section \<open>Conventions\<close>

text \<open>
  The firmware's \<^verbatim>\<open>uint32_t\<close> values (ring-buffer cursors, millisecond timestamps, frame
  counters) are \<open>32 word\<close>: \<open>+\<close> and \<open>-\<close> wrap, comparisons are unsigned.  Samples
  (\<^verbatim>\<open>int16_t\<close>) are \<open>16 word\<close> read through \<open>sint\<close>.  Values of type \<^verbatim>\<open>float\<close> are
  modelled as \<open>real\<close>: the comparisons and the control flow are those of the source, the
  rounding of single-precision arithmetic is not modelled.
\<close>

type_synonym u32 = "32 word"
type_synonym sample = "16 word"

section \<open>audio\_capture: the ring buffer and the frame source\<close>

definition AUDIO_SAMPLE_RATE :: nat where
  "AUDIO_SAMPLE_RATE = 16000"

definition AUDIO_BUFFER_SECONDS :: nat where
  "AUDIO_BUFFER_SECONDS = 10"

definition AUDIO_BUFFER_SIZE :: nat where
  "AUDIO_BUFFER_SIZE = AUDIO_SAMPLE_RATE * AUDIO_BUFFER_SECONDS"

definition AUDIO_FRAME_SAMPLES :: nat where
  "AUDIO_FRAME_SAMPLES = 480"

definition DMA_BUF_LEN :: nat where
  "DMA_BUF_LEN = 1024"

record AudioFrame =
  samples :: "sample list"
  timestamp_ms :: u32
  valid :: bool

text \<open>The module's static variables.\<close>

record audio_state =
  audio_buffer :: "sample list"
  write_index :: u32
  read_index :: u32
  is_initialized :: bool
  is_running :: bool
  current_level :: real

text \<open>What one call of \<^verbatim>\<open>i2s_read\<close> hands back: the status, the byte count and the
  temporary buffer (\<open>DMA_BUF_LEN\<close> samples).\<close>

record i2s_read =
  esp_ok :: bool
  bytes_read :: nat
  temp_buffer :: "sample list"

text \<open>\<^verbatim>\<open>calculate_rms\<close>: the sum of squares is an \<^verbatim>\<open>int64_t\<close>, far from overflow for
  at most 1024 samples of 16 bits.\<close>

definition sum_squares :: "sample list \<Rightarrow> int" where
  "sum_squares xs = sum_list (map (\<lambda>s. sint s * sint s) xs)"

definition calculate_rms :: "sample list \<Rightarrow> real" where
  "calculate_rms xs =
     (if length xs = 0 then 0
      else sqrt (real_of_int (sum_squares xs) / real (length xs)) / 32768)"

text \<open>\<^verbatim>\<open>audio_init\<close>, with the outcome of \<^verbatim>\<open>configure_i2s\<close> as a parameter.\<close>

definition audio_init :: "audio_state \<Rightarrow> bool \<Rightarrow> bool \<times> audio_state" where
  "audio_init st i2s_configured =
     (if is_initialized st then (True, st)
      else
        let st1 = st\<lparr>audio_buffer := replicate AUDIO_BUFFER_SIZE 0,
                     write_index := 0, read_index := 0\<rparr>
        in if \<not> i2s_configured then (False, st1)
           else (True, st1\<lparr>is_initialized := True\<rparr>))"

definition audio_start :: "audio_state \<Rightarrow> audio_state" where
  "audio_start st =
     (if \<not> is_initialized st \<or> is_running st then st else st\<lparr>is_running := True\<rparr>)"

definition audio_stop :: "audio_state \<Rightarrow> audio_state" where
  "audio_stop st = (if \<not> is_running st then st else st\<lparr>is_running := False\<rparr>)"

definition audio_frames_available :: "audio_state \<Rightarrow> u32" where
  "audio_frames_available st =
     (let wi = write_index st; ri = read_index st
      in if wi \<ge> ri then wi - ri
         else word_of_nat AUDIO_BUFFER_SIZE - ri + wi)"

text \<open>\<^verbatim>\<open>audio_get_frame\<close>: the frame pointer is \<open>None\<close> when null; \<open>now\<close> is the reading of
  \<^verbatim>\<open>millis()\<close>.  The returned triple is the boolean result, the frame behind the pointer
  and the module state.\<close>

definition audio_get_frame ::
  "audio_state \<Rightarrow> u32 \<Rightarrow> AudioFrame option \<Rightarrow> bool \<times> AudioFrame option \<times> audio_state" where
  "audio_get_frame st now frame =
     (case frame of
        None \<Rightarrow> (False, None, st)
      | Some f \<Rightarrow>
          let f1 = f\<lparr>valid := False\<rparr>;
              available = audio_frames_available st
          in if available < word_of_nat AUDIO_FRAME_SAMPLES then (False, Some f1, st)
             else
               let f2 = f1\<lparr>samples :=
                          map (\<lambda>i. audio_buffer st !
                                 unat ((read_index st + word_of_nat i) mod word_of_nat AUDIO_BUFFER_SIZE))
                              [0..<AUDIO_FRAME_SAMPLES]\<rparr>;
                   st1 = st\<lparr>read_index :=
                           (read_index st + word_of_nat AUDIO_FRAME_SAMPLES)
                             mod word_of_nat AUDIO_BUFFER_SIZE\<rparr>
               in (True, Some (f2\<lparr>timestamp_ms := now, valid := True\<rparr>), st1))"

text \<open>The body of the copy loop of \<^verbatim>\<open>audio_process\<close>, for one sample.\<close>

definition push_sample :: "audio_state \<Rightarrow> sample \<Rightarrow> audio_state" where
  "push_sample st x =
     (let st1 = st\<lparr>audio_buffer := (audio_buffer st)[unat (write_index st) := x]\<rparr>;
          st2 = st1\<lparr>write_index := (write_index st1 + 1) mod word_of_nat AUDIO_BUFFER_SIZE\<rparr>
      in if write_index st2 = read_index st2
         then st2\<lparr>read_index := (read_index st2 + 1) mod word_of_nat AUDIO_BUFFER_SIZE\<rparr>
         else st2)"

fun push_samples :: "audio_state \<Rightarrow> sample list \<Rightarrow> audio_state" where
  "push_samples st [] = st"
| "push_samples st (x # xs) = push_samples (push_sample st x) xs"

definition audio_process :: "audio_state \<Rightarrow> i2s_read \<Rightarrow> audio_state" where
  "audio_process st rd =
     (if \<not> is_running st then st
      else if \<not> esp_ok rd \<or> bytes_read rd = 0 then st
      else
        let samples_read = bytes_read rd div 2;
            st1 = push_samples st (take samples_read (temp_buffer rd))
        in st1\<lparr>current_level := calculate_rms (take samples_read (temp_buffer rd))\<rparr>)"

subsection \<open>The buffer seen as a queue\<close>

text \<open>The cursors stay below the capacity and the array has its declared length.\<close>

definition audio_inv :: "audio_state \<Rightarrow> bool" where
  "audio_inv st \<longleftrightarrow>
     length (audio_buffer st) = AUDIO_BUFFER_SIZE \<and>
     unat (write_index st) < AUDIO_BUFFER_SIZE \<and>
     unat (read_index st) < AUDIO_BUFFER_SIZE"

text \<open>The unread samples, oldest first: the cells from the read cursor up to the write
  cursor.\<close>

definition unread :: "audio_state \<Rightarrow> sample list" where
  "unread st =
     map (\<lambda>k. audio_buffer st ! ((unat (read_index st) + k) mod AUDIO_BUFFER_SIZE))
         [0..<unat (audio_frames_available st)]"

text \<open>The queue the specification describes: a push appends, and drops the oldest sample
  when the buffer is full; a frame read removes the oldest frame when there is one.\<close>

definition queue_push :: "sample list \<Rightarrow> sample \<Rightarrow> sample list" where
  "queue_push q x = (if Suc (length q) = AUDIO_BUFFER_SIZE then tl q @ [x] else q @ [x])"

definition queue_frame :: "sample list \<Rightarrow> sample list option \<times> sample list" where
  "queue_frame q =
     (if length q < AUDIO_FRAME_SAMPLES then (None, q)
      else (Some (take AUDIO_FRAME_SAMPLES q), drop AUDIO_FRAME_SAMPLES q))"

text \<open>Driving the buffer: a block of samples is pushed, or a frame is asked for (with the
  clock reading and the caller's frame variable).\<close>

datatype audio_op = Push "sample list" | Read u32 AudioFrame

text \<open>The frames the code delivers over a sequence of operations, in order of delivery.\<close>

fun audio_run :: "audio_state \<Rightarrow> audio_op list \<Rightarrow> sample list list \<times> audio_state" where
  "audio_run st [] = ([], st)"
| "audio_run st (Push xs # ops) = audio_run (push_samples st xs) ops"
| "audio_run st (Read now f # ops) =
     (case audio_get_frame st now (Some f) of
        (ok, fr, st1) \<Rightarrow>
          (case audio_run st1 ops of
             (frs, st2) \<Rightarrow>
               ((case fr of Some g \<Rightarrow> (if ok then [samples g] else []) | None \<Rightarrow> []) @ frs, st2)))"

text \<open>The same sequence on the specification's queue.\<close>

fun queue_run :: "sample list \<Rightarrow> audio_op list \<Rightarrow> sample list list \<times> sample list" where
  "queue_run q [] = ([], q)"
| "queue_run q (Push xs # ops) = queue_run (foldl queue_push q xs) ops"
| "queue_run q (Read now f # ops) =
     (case queue_frame q of
        (fr, q1) \<Rightarrow>
          (case queue_run q1 ops of
             (frs, q2) \<Rightarrow> ((case fr of Some g \<Rightarrow> [g] | None \<Rightarrow> []) @ frs, q2)))"

text \<open>The static initial values of the module, and the state once \<^verbatim>\<open>audio_init\<close> has
  succeeded.\<close>

definition audio_power_on :: audio_state where
  "audio_power_on =
     \<lparr>audio_buffer = replicate AUDIO_BUFFER_SIZE 0, write_index = 0, read_index = 0,
      is_initialized = False, is_running = False, current_level = 0\<rparr>"

definition audio_boot :: audio_state where
  "audio_boot = snd (audio_init audio_power_on True)"

text \<open>Arithmetic of the cursors on natural numbers: the number of cells from \<open>R\<close> up to
  \<open>W\<close> in a ring of \<open>C\<close> cells, and the cells read from \<open>R\<close> on.\<close>

definition navail :: "nat \<Rightarrow> nat \<Rightarrow> nat \<Rightarrow> nat" where
  "navail C W R = (if R \<le> W then W - R else C - R + W)"

definition cells :: "nat \<Rightarrow> 'a list \<Rightarrow> nat \<Rightarrow> nat \<Rightarrow> 'a list" where
  "cells C buf R n = map (\<lambda>k. buf ! ((R + k) mod C)) [0..<n]"

text \<open>The invariant of the specification, \<open>available = (W - R) mod C\<close>, read on the
  integers.\<close>

definition avail_law :: "audio_state \<Rightarrow> bool" where
  "avail_law st \<longleftrightarrow>
     int (unat (audio_frames_available st)) =
       (int (unat (write_index st)) - int (unat (read_index st))) mod int AUDIO_BUFFER_SIZE"

section \<open>vad\_detector: the voice activity detector\<close>

definition VAD_DEFAULT_THRESHOLD :: real where
  "VAD_DEFAULT_THRESHOLD = 2 / 100"

definition VAD_MIN_SPEECH_MS :: u32 where
  "VAD_MIN_SPEECH_MS = 100"

definition VAD_MIN_SILENCE_MS :: u32 where
  "VAD_MIN_SILENCE_MS = 300"

definition VAD_HANGOVER_MS :: u32 where
  "VAD_HANGOVER_MS = 200"

datatype VADState = VAD_STATE_SILENCE | VAD_STATE_SPEECH | VAD_STATE_HANGOVER

record VADResult =
  is_speech :: bool
  energy :: real
  threshold :: real
  state :: VADState
  speech_start :: u32
  speech_duration_ms :: u32

record SpeechSegment =
  start_ms :: u32
  end_ms :: u32
  duration_ms :: u32
  avg_energy :: real

text \<open>The module's static variables.\<close>

record vad_state =
  energy_threshold :: real
  adaptive_enabled :: bool
  current_state :: VADState
  state_start_time :: u32
  last_speech_time :: u32
  speech_start_time :: u32
  noise_floor :: real
  noise_alpha :: real
  pending_segment :: SpeechSegment
  segment_ready :: bool
  segment_energy_sum :: real
  segment_frame_count :: u32

text \<open>\<^verbatim>\<open>calculate_energy\<close> and \<^verbatim>\<open>calculate_zcr\<close> read \<open>samples[0 .. count - 1]\<close>; the
  caller passes a frame's array of \<open>AUDIO_FRAME_SAMPLES\<close> samples.\<close>

definition calculate_energy :: "sample list \<Rightarrow> nat \<Rightarrow> real" where
  "calculate_energy xs count =
     (if count = 0 then 0
      else
        let sum_sq = sum_list (map (\<lambda>i. sint (xs ! i) * sint (xs ! i)) [0..<count]);
            rms = sqrt (real_of_int sum_sq / real count)
        in rms / 32768)"

definition calculate_zcr :: "sample list \<Rightarrow> nat \<Rightarrow> real" where
  "calculate_zcr xs count =
     (if count < 2 then 0
      else
        let crossings =
              length (filter (\<lambda>i. (0 \<le> sint (xs ! i) \<and> sint (xs ! (i - 1)) < 0) \<or>
                                   (sint (xs ! i) < 0 \<and> 0 \<le> sint (xs ! (i - 1))))
                             [1..<count])
        in real crossings / real (count - 1))"

definition update_noise_floor :: "vad_state \<Rightarrow> real \<Rightarrow> vad_state" where
  "update_noise_floor st e =
     (if current_state st = VAD_STATE_SILENCE then
        let nf = noise_alpha st * noise_floor st + (1 - noise_alpha st) * e;
            nf1 = (if nf < 1 / 1000 then 1 / 1000 else nf);
            nf2 = (if nf1 > 1 / 10 then 1 / 10 else nf1)
        in st\<lparr>noise_floor := nf2\<rparr>
      else st)"

definition get_effective_threshold :: "vad_state \<Rightarrow> real" where
  "get_effective_threshold st =
     (if adaptive_enabled st then noise_floor st * 3 else energy_threshold st)"

definition transition_to :: "vad_state \<Rightarrow> VADState \<Rightarrow> u32 \<Rightarrow> vad_state" where
  "transition_to st new_state now =
     (if current_state st = new_state then st
      else
        let st1 =
              (if current_state st = VAD_STATE_SPEECH then
                 let seg1 = (pending_segment st)\<lparr>end_ms := now,
                               duration_ms := now - start_ms (pending_segment st)\<rparr>;
                     seg2 = seg1\<lparr>avg_energy :=
                               (if segment_frame_count st > 0
                                then segment_energy_sum st / real (unat (segment_frame_count st))
                                else 0)\<rparr>;
                     sta = st\<lparr>pending_segment := seg2\<rparr>;
                     stb = (if duration_ms seg2 \<ge> VAD_MIN_SPEECH_MS
                            then sta\<lparr>segment_ready := True\<rparr> else sta)
                 in stb\<lparr>last_speech_time := now\<rparr>
               else st);
            st2 =
              (if new_state = VAD_STATE_SPEECH then
                 st1\<lparr>pending_segment := (pending_segment st1)\<lparr>start_ms := now\<rparr>,
                     segment_energy_sum := 0,
                     segment_frame_count := 0,
                     speech_start_time := now\<rparr>
               else st1)
        in st2\<lparr>current_state := new_state, state_start_time := now\<rparr>)"

text \<open>\<^verbatim>\<open>vad_init\<close> and \<^verbatim>\<open>vad_reset\<close>; \<open>now\<close> is the reading of \<^verbatim>\<open>millis()\<close>.\<close>

definition vad_init :: "vad_state \<Rightarrow> u32 \<Rightarrow> vad_state" where
  "vad_init st now =
     st\<lparr>energy_threshold := VAD_DEFAULT_THRESHOLD,
        adaptive_enabled := False,
        current_state := VAD_STATE_SILENCE,
        state_start_time := now,
        last_speech_time := 0,
        speech_start_time := 0,
        noise_floor := 1 / 100,
        segment_ready := False\<rparr>"

definition vad_set_threshold :: "vad_state \<Rightarrow> real \<Rightarrow> vad_state" where
  "vad_set_threshold st t =
     (let t1 = (if t < 1 / 1000 then 1 / 1000 else t);
          t2 = (if t1 > 1 then 1 else t1)
      in st\<lparr>energy_threshold := t2\<rparr>)"

definition vad_get_threshold :: "vad_state \<Rightarrow> real" where
  "vad_get_threshold st = get_effective_threshold st"

definition vad_set_adaptive :: "vad_state \<Rightarrow> bool \<Rightarrow> vad_state" where
  "vad_set_adaptive st enabled = st\<lparr>adaptive_enabled := enabled\<rparr>"

text \<open>The per-frame speech decision of \<^verbatim>\<open>vad_process\<close>.\<close>

definition frame_is_speech :: "real \<Rightarrow> real \<Rightarrow> real \<Rightarrow> bool" where
  "frame_is_speech e zcr thr =
     (let b = (e > thr)
      in if b \<and> (zcr < 5 / 100 \<or> zcr > 1 / 2) then e > thr * (3 / 2) else b)"

text \<open>The \<^verbatim>\<open>switch\<close> of \<^verbatim>\<open>vad_process\<close> on the current state.\<close>

definition vad_machine :: "vad_state \<Rightarrow> u32 \<Rightarrow> real \<Rightarrow> bool \<Rightarrow> vad_state" where
  "vad_machine st now e speech =
     (case current_state st of
        VAD_STATE_SILENCE \<Rightarrow>
          (if speech then transition_to st VAD_STATE_SPEECH now else st)
      | VAD_STATE_SPEECH \<Rightarrow>
          (let sta = st\<lparr>segment_energy_sum := segment_energy_sum st + e,
                         segment_frame_count := segment_frame_count st + 1\<rparr>
           in if \<not> speech then transition_to sta VAD_STATE_HANGOVER now else sta)
      | VAD_STATE_HANGOVER \<Rightarrow>
          (if speech then transition_to st VAD_STATE_SPEECH now
           else if now - state_start_time st > VAD_HANGOVER_MS
                then transition_to st VAD_STATE_SILENCE now
                else st))"

text \<open>\<^verbatim>\<open>vad_process\<close>: the frame pointer is \<open>None\<close> when null.\<close>

definition vad_process :: "vad_state \<Rightarrow> AudioFrame option \<Rightarrow> VADResult \<times> vad_state" where
  "vad_process st frame =
     (let result = \<lparr>is_speech = False, energy = 0,
                     threshold = get_effective_threshold st,
                     state = current_state st,
                     speech_start = 0, speech_duration_ms = 0\<rparr>
      in case frame of
           None \<Rightarrow> (result, st)
         | Some f \<Rightarrow>
             if \<not> valid f then (result, st)
             else
               let now = timestamp_ms f;
                   e = calculate_energy (samples f) AUDIO_FRAME_SAMPLES;
                   zcr = calculate_zcr (samples f) AUDIO_FRAME_SAMPLES;
                   result1 = result\<lparr>energy := e\<rparr>;
                   st1 = (if adaptive_enabled st then update_noise_floor st e else st);
                   thr = get_effective_threshold st1;
                   st2 = vad_machine st1 now e (frame_is_speech e zcr thr);
                   speaking = (current_state st2 = VAD_STATE_SPEECH \<or>
                               current_state st2 = VAD_STATE_HANGOVER);
                   result2 = result1\<lparr>state := current_state st2, is_speech := speaking,
                                     threshold := thr\<rparr>;
                   result3 = (if speaking
                              then result2\<lparr>speech_start := speech_start_time st2,
                                           speech_duration_ms := now - speech_start_time st2\<rparr>
                              else result2)
               in (result3, st2))"

text \<open>\<^verbatim>\<open>vad_get_segment\<close>: the segment pointer is \<open>None\<close> when null.\<close>

definition vad_get_segment ::
  "vad_state \<Rightarrow> SpeechSegment option \<Rightarrow> bool \<times> SpeechSegment option \<times> vad_state" where
  "vad_get_segment st segment =
     (case segment of
        None \<Rightarrow> (False, None, st)
      | Some s \<Rightarrow>
          if \<not> segment_ready st then (False, Some s, st)
          else (True, Some (pending_segment st), st\<lparr>segment_ready := False\<rparr>))"

definition vad_reset :: "vad_state \<Rightarrow> u32 \<Rightarrow> vad_state" where
  "vad_reset st now =
     st\<lparr>current_state := VAD_STATE_SILENCE,
        state_start_time := now,
        last_speech_time := 0,
        speech_start_time := 0,
        segment_ready := False,
        segment_energy_sum := 0,
        segment_frame_count := 0\<rparr>"


text \<open>The static initial values of the module, and the state after \<^verbatim>\<open>vad_init\<close> at clock
  reading 0.\<close>

definition vad_power_on :: vad_state where
  "vad_power_on =
     \<lparr>energy_threshold = VAD_DEFAULT_THRESHOLD, adaptive_enabled = False,
      current_state = VAD_STATE_SILENCE, state_start_time = 0, last_speech_time = 0,
      speech_start_time = 0, noise_floor = 1 / 100, noise_alpha = 995 / 1000,
      pending_segment = \<lparr>start_ms = 0, end_ms = 0, duration_ms = 0, avg_energy = 0\<rparr>,
      segment_ready = False, segment_energy_sum = 0, segment_frame_count = 0\<rparr>"

definition vad_boot :: vad_state where
  "vad_boot = vad_init vad_power_on 0"

text \<open>The way the main loop drives the detector: each frame goes through
  \<^verbatim>\<open>vad_process\<close>, then \<^verbatim>\<open>vad_get_segment\<close> is asked for a finished segment.  The run
  collects the segments handed out, in order.\<close>

fun vad_run :: "vad_state \<Rightarrow> AudioFrame list \<Rightarrow> SpeechSegment list \<times> vad_state" where
  "vad_run st [] = ([], st)"
| "vad_run st (f # fs) =
     (case vad_get_segment (snd (vad_process st (Some f)))
             (Some \<lparr>start_ms = 0, end_ms = 0, duration_ms = 0, avg_energy = 0\<rparr>) of
        (ok, seg, st1) \<Rightarrow>
          (case vad_run st1 fs of
             (segs, st2) \<Rightarrow>
               ((case seg of Some s \<Rightarrow> (if ok then [s] else []) | None \<Rightarrow> []) @ segs, st2)))"

text \<open>Frames processed one after the other with no call of \<^verbatim>\<open>vad_get_segment\<close> in
  between.\<close>

definition vad_feed :: "vad_state \<Rightarrow> AudioFrame list \<Rightarrow> vad_state" where
  "vad_feed st fs = foldl (\<lambda>s f. snd (vad_process s (Some f))) st fs"

text \<open>Two test frames: a constant loud frame and an all-zero frame, stamped \<open>t\<close>.\<close>

definition loud_frame :: "u32 \<Rightarrow> AudioFrame" where
  "loud_frame t = \<lparr>samples = replicate AUDIO_FRAME_SAMPLES 20000, timestamp_ms = t, valid = True\<rparr>"

definition quiet_frame :: "u32 \<Rightarrow> AudioFrame" where
  "quiet_frame t = \<lparr>samples = replicate AUDIO_FRAME_SAMPLES 0, timestamp_ms = t, valid = True\<rparr>"

section \<open>pitch\_detector: the YIN pitch estimator\<close>

subsection \<open>Single-precision arithmetic\<close>

text \<open>
  The estimator's thresholds are met or missed by the rounding of its \<^verbatim>\<open>float\<close> arithmetic,
  so this module is modelled in IEEE 754 single precision.  A finite \<^verbatim>\<open>float\<close> is the real
  number it denotes; \<open>fl\<close> rounds a real to the nearest \<^verbatim>\<open>float\<close>, ties to the even
  significand (24 bits, exponents from \<open>-126\<close>, subnormals below).  Every operation of
  the source is the exact operation followed by \<open>fl\<close>, each one rounded on its own.
  Overflow is not modelled: sums of at most \<open>2\<^sup>3\<^sup>2\<close> squares of 17-bit differences and
  their quotients stay far below \<open>2\<^sup>1\<^sup>2\<^sup>8\<close>.  The one division whose divisor can be zero
  is in the parabolic interpolation; its result is a \<open>fvalue\<close>.
\<close>

definition f32_exponent :: "real \<Rightarrow> int" where
  "f32_exponent x = max \<lfloor>log 2 \<bar>x\<bar>\<rfloor> (- 126)"

definition round_half_even :: "real \<Rightarrow> int" where
  "round_half_even y =
     (let f = \<lfloor>y\<rfloor>
      in if y - of_int f < 1 / 2 then f
         else if y - of_int f > 1 / 2 then f + 1
         else if even f then f else f + 1)"

definition fl :: "real \<Rightarrow> real" where
  "fl x =
     (if x = 0 then 0
      else of_int (round_half_even (x / 2 powi (f32_exponent x - 23))) *
           2 powi (f32_exponent x - 23))"

datatype fvalue = Fin real | PosInf | NegInf | NotNumber

text \<open>Division of two finite floats; a zero divisor here is \<open>+0\<close> (it arises as \<open>x + (-x)\<close>).\<close>

definition f32_div :: "real \<Rightarrow> real \<Rightarrow> fvalue" where
  "f32_div x y =
     (if y \<noteq> 0 then Fin (fl (x / y))
      else if x > 0 then PosInf
      else if x < 0 then NegInf
      else NotNumber)"

text \<open>\<open>a + v\<close> for a finite \<open>a\<close>, the test \<open>v <= 0\<close>, and \<open>a / v\<close> for a finite positive \<open>a\<close>
  and a \<open>v\<close> that is not \<open><= 0\<close>.\<close>

definition f32_add_fin :: "real \<Rightarrow> fvalue \<Rightarrow> fvalue" where
  "f32_add_fin a v = (case v of Fin r \<Rightarrow> Fin (fl (a + r)) | PosInf \<Rightarrow> PosInf
                      | NegInf \<Rightarrow> NegInf | NotNumber \<Rightarrow> NotNumber)"

definition f32_le_zero :: "fvalue \<Rightarrow> bool" where
  "f32_le_zero v = (case v of Fin r \<Rightarrow> r \<le> 0 | PosInf \<Rightarrow> False
                    | NegInf \<Rightarrow> True | NotNumber \<Rightarrow> False)"

definition f32_fin_div :: "real \<Rightarrow> fvalue \<Rightarrow> fvalue" where
  "f32_fin_div a v = (case v of Fin r \<Rightarrow> f32_div a r | PosInf \<Rightarrow> Fin 0
                      | NegInf \<Rightarrow> Fin 0 | NotNumber \<Rightarrow> NotNumber)"

subsection \<open>The estimator\<close>

definition PITCH_MIN_HZ :: nat where
  "PITCH_MIN_HZ = 75"

definition PITCH_MAX_HZ :: nat where
  "PITCH_MAX_HZ = 500"

definition PITCH_CHILD_THRESHOLD_HZ :: real where
  "PITCH_CHILD_THRESHOLD_HZ = 280"

text \<open>\<^verbatim>\<open>0.15f\<close>, and the silence floor \<^verbatim>\<open>0.01f\<close> of \<^verbatim>\<open>pitch_estimate\<close>.\<close>

definition YIN_THRESHOLD :: real where
  "YIN_THRESHOLD = fl (15 / 100)"

definition SILENCE_FLOOR :: real where
  "SILENCE_FLOOR = fl (1 / 100)"

definition PITCH_WINDOW_SAMPLES :: nat where
  "PITCH_WINDOW_SAMPLES = 800"

datatype SpeakerType = SPEAKER_UNKNOWN | SPEAKER_ADULT | SPEAKER_CHILD

text \<open>\<^verbatim>\<open>struct PitchResult\<close>; its field \<^verbatim>\<open>valid\<close> is \<open>pitch_valid\<close> here (the frame has a field
  of that name).\<close>

record PitchResult =
  pitch_valid :: bool
  pitch_hz :: fvalue
  confidence :: real
  speaker :: SpeakerType

text \<open>
  The static \<^verbatim>\<open>diff_buffer\<close> (256 floats) is a list passed in and handed back.  Sizes and
  lags are \<^verbatim>\<open>size_t\<close>, 32 bits wide on the target; they are natural numbers here, and
  the two subtractions that could wrap are written out.  The entries of the array are finite:
  sums of squares, and quotients by a running sum that is tested positive.
\<close>

definition DIFF_BUFFER_LEN :: nat where
  "DIFF_BUFFER_LEN = 256"

definition yin_difference :: "sample list \<Rightarrow> nat \<Rightarrow> real list \<Rightarrow> nat \<Rightarrow> real list" where
  "yin_difference xs count diff tau_max =
     (let len = (if tau_max \<le> count then count - tau_max else count + 2 ^ 32 - tau_max)
      in fold (\<lambda>tau d.
                 d[tau := fold (\<lambda>j sum.
                                  let delta = fl (fl (real_of_int (sint (xs ! j))) -
                                                  fl (real_of_int (sint (xs ! (j + tau)))))
                                  in fl (sum + fl (delta * delta)))
                               [0..<len] 0])
              [1..<tau_max] (diff[0 := 0]))"

text \<open>One round of the loop of \<^verbatim>\<open>yin_cumulative_mean\<close>, on the running sum and the array.\<close>

definition cumulative_step :: "nat \<Rightarrow> real \<times> real list \<Rightarrow> real \<times> real list" where
  "cumulative_step tau acc =
     (let running_sum = fl (fst acc + snd acc ! tau)
      in (running_sum,
          (snd acc)[tau := (if running_sum > 0
                            then fl (fl (snd acc ! tau * fl (real tau)) / running_sum)
                            else 1)]))"

definition yin_cumulative_mean :: "real list \<Rightarrow> nat \<Rightarrow> real list" where
  "yin_cumulative_mean diff tau_max =
     snd (fold cumulative_step [1..<tau_max] (0, diff[0 := 1]))"

text \<open>The test of the first loop of \<^verbatim>\<open>yin_absolute_threshold\<close>: below the threshold, and a
  local minimum.  For \<open>tau = 0\<close> the source would read \<open>diff[tau - 1]\<close> out of bounds when
  the first comparison holds; the statements below have \<open>1 \<le> tau_min\<close>.\<close>

definition is_dip :: "real list \<Rightarrow> real \<Rightarrow> nat \<Rightarrow> bool" where
  "is_dip diff thr tau \<longleftrightarrow>
     diff ! tau < thr \<and> diff ! tau < diff ! (tau - 1) \<and> diff ! tau \<le> diff ! (tau + 1)"

text \<open>One round of the second loop: the running minimum and its lag.\<close>

definition min_step :: "real list \<Rightarrow> nat \<Rightarrow> real \<times> nat \<Rightarrow> real \<times> nat" where
  "min_step diff tau acc = (if diff ! tau < fst acc then (diff ! tau, tau) else acc)"

definition yin_absolute_threshold :: "real list \<Rightarrow> nat \<Rightarrow> nat \<Rightarrow> real \<Rightarrow> int" where
  "yin_absolute_threshold diff tau_min tau_max thr =
     (let scan_end = (if tau_max = 0 then 2 ^ 32 - 1 else tau_max - 1)
      in case find (is_dip diff thr) [tau_min..<scan_end] of
           Some tau \<Rightarrow> int tau
         | None \<Rightarrow>
             let m = fold (min_step diff) [Suc tau_min..<tau_max] (diff ! tau_min, tau_min)
             in if fst m < 1 / 2 then int (snd m) else - 1)"

definition yin_parabolic_interpolation :: "real list \<Rightarrow> int \<Rightarrow> nat \<Rightarrow> fvalue" where
  "yin_parabolic_interpolation diff tau tau_max =
     (if tau \<le> 0 \<or> tau \<ge> int tau_max - 1 then Fin (fl (real_of_int tau))
      else
        let s0 = diff ! nat (tau - 1);
            s1 = diff ! nat tau;
            s2 = diff ! nat (tau + 1);
            adjustment =
              f32_div (fl (s2 - s0))
                (fl (2 * fl (fl (fl (fl (2 * s1) - s2) - s0) + fl (1 / 10 ^ 10))))
        in f32_add_fin (fl (real_of_int tau)) adjustment)"

text \<open>\<^verbatim>\<open>pitch_classify\<close>; both comparisons are false of a value that is not a number.\<close>

definition pitch_classify :: "fvalue \<Rightarrow> SpeakerType" where
  "pitch_classify hz =
     (case hz of
        Fin r \<Rightarrow> (if r \<le> 0 then SPEAKER_UNKNOWN
                  else if r \<ge> PITCH_CHILD_THRESHOLD_HZ then SPEAKER_CHILD
                  else SPEAKER_ADULT)
      | PosInf \<Rightarrow> SPEAKER_CHILD
      | NegInf \<Rightarrow> SPEAKER_UNKNOWN
      | NotNumber \<Rightarrow> SPEAKER_ADULT)"

text \<open>The stages of \<^verbatim>\<open>pitch_estimate\<close>, named: the lag range, the RMS of the window, the
  normalised difference array, the accepted lag and the refined lag.  \<open>count\<close> is the length
  of the window.\<close>

definition pitch_tau_min :: "u32 \<Rightarrow> nat" where
  "pitch_tau_min sample_rate = unat sample_rate div PITCH_MAX_HZ"

definition pitch_tau_max :: "u32 \<Rightarrow> nat" where
  "pitch_tau_max sample_rate =
     (let t = unat sample_rate div PITCH_MIN_HZ in if t > 255 then 255 else t)"

definition window_energy :: "sample list \<Rightarrow> int" where
  "window_energy xs = sum_list (map (\<lambda>i. sint (xs ! i) * sint (xs ! i)) [0..<length xs])"

definition window_rms :: "sample list \<Rightarrow> real" where
  "window_rms xs =
     fl (fl (sqrt (fl (fl (real_of_int (window_energy xs)) / fl (real (length xs))))) / 32768)"

text \<open>The RMS amplitude of the window as a fraction of full scale, in exact arithmetic.\<close>

definition exact_rms :: "sample list \<Rightarrow> real" where
  "exact_rms xs = sqrt (real_of_int (window_energy xs) / real (length xs)) / 32768"

definition pitch_diff :: "real list \<Rightarrow> sample list \<Rightarrow> u32 \<Rightarrow> real list" where
  "pitch_diff buf xs sample_rate =
     yin_cumulative_mean
       (yin_difference xs (length xs) buf (pitch_tau_max sample_rate))
       (pitch_tau_max sample_rate)"

definition pitch_tau :: "real list \<Rightarrow> sample list \<Rightarrow> u32 \<Rightarrow> int" where
  "pitch_tau buf xs sample_rate =
     yin_absolute_threshold (pitch_diff buf xs sample_rate)
       (pitch_tau_min sample_rate) (pitch_tau_max sample_rate) YIN_THRESHOLD"

definition pitch_tau_refined :: "real list \<Rightarrow> sample list \<Rightarrow> u32 \<Rightarrow> fvalue" where
  "pitch_tau_refined buf xs sample_rate =
     yin_parabolic_interpolation (pitch_diff buf xs sample_rate)
       (pitch_tau buf xs sample_rate) (pitch_tau_max sample_rate)"

definition pitch_invalid :: PitchResult where
  "pitch_invalid =
     \<lparr>pitch_valid = False, pitch_hz = Fin 0, confidence = 0, speaker = SPEAKER_UNKNOWN\<rparr>"

text \<open>\<^verbatim>\<open>pitch_estimate\<close>: the result and the scratch buffer it leaves behind.\<close>

definition pitch_estimate :: "real list \<Rightarrow> sample list \<Rightarrow> u32 \<Rightarrow> PitchResult \<times> real list" where
  "pitch_estimate buf xs sample_rate =
     (let result = pitch_invalid;
          count = length xs;
          tau_max = pitch_tau_max sample_rate
      in if count < tau_max * 2 then (result, buf)
         else if window_rms xs < SILENCE_FLOOR then (result, buf)
         else
           let diff = pitch_diff buf xs sample_rate;
               tau = pitch_tau buf xs sample_rate
           in if tau < 0 then (result, diff)
              else
                let tau_refined = pitch_tau_refined buf xs sample_rate
                in if f32_le_zero tau_refined then (result, diff)
                   else
                     let hz = f32_fin_div (fl (real (unat sample_rate))) tau_refined
                     in (result\<lparr>pitch_hz := hz, pitch_valid := True,
                                confidence := fl (1 - diff ! nat tau),
                                speaker := pitch_classify hz\<rparr>,
                         diff))"




text \<open>A window of 64 samples at a sample rate of 500 Hz: 317 and 325 in turn, and a last
  sample of 618.  Its sum of squares is 6871947.\<close>

definition rms_edge_window :: "sample list" where
  "rms_edge_window =
     [317, 325, 317, 325, 317, 325, 317, 325, 317, 325, 317, 325, 317, 325, 317, 325,
      317, 325, 317, 325, 317, 325, 317, 325, 317, 325, 317, 325, 317, 325, 317, 325,
      317, 325, 317, 325, 317, 325, 317, 325, 317, 325, 317, 325, 317, 325, 317, 325,
      317, 325, 317, 325, 317, 325, 317, 325, 317, 325, 317, 325, 317, 325, 317, 618]"

section \<open>main: session control and the turn detector\<close>

definition RESPONSE_THRESHOLD_MS :: u32 where
  "RESPONSE_THRESHOLD_MS = 3000"




datatype BLEEventType = BLE_EVENT_SERVE | BLE_EVENT_RETURN | BLE_EVENT_MISSED_OPPORTUNITY

text \<open>\<^verbatim>\<open>struct BLEEvent\<close>; the fields \<^verbatim>\<open>type\<close>, \<^verbatim>\<open>confidence\<close> and \<^verbatim>\<open>pitch_hz\<close> carry the
  prefix \<open>event_\<close> here.\<close>

record BLEEvent =
  event_type :: BLEEventType
  timestamp :: real
  event_confidence :: real
  event_pitch_hz :: real
  response_latency :: real
  silence_duration :: real

datatype FeedbackType =
    FEEDBACK_NONE | FEEDBACK_SESSION_START | FEEDBACK_SESSION_END | FEEDBACK_GOOD_TURN
  | FEEDBACK_MISSED_OPP | FEEDBACK_LOW_BATTERY | FEEDBACK_CONNECTED | FEEDBACK_DISCONNECTED
  | FEEDBACK_ERROR

text \<open>The static variables of \<^verbatim>\<open>main.cpp\<close>.\<close>

record main_state =
  session_active :: bool
  session_start_time :: u32
  session_event_count :: "16 word"
  last_was_speaking :: bool
  last_speech_end_time :: u32
  waiting_for_response :: bool
  child_speech_time :: u32
  last_was_child :: bool
  last_status_update :: u32
  last_debug_print :: u32

text \<open>
  The whole firmware state: the three modules, and the two collaborators seen from the
  core.  \<open>ble_link\<close> stands for \<^verbatim>\<open>device_connected && pEventStream\<close> of the BLE service;
  \<open>ble_calls\<close> lists the events handed to \<^verbatim>\<open>ble_send_event\<close>, oldest first, each with the
  value the call returned (whether it was notified); \<open>feedback_calls\<close> lists the calls of
  \<^verbatim>\<open>feedback_trigger\<close>.
\<close>

record system =
  main :: main_state
  vad :: vad_state
  audio :: audio_state
  ble_link :: bool
  ble_calls :: "(BLEEvent \<times> bool) list"
  feedback_calls :: "(FeedbackType \<times> real) list"

definition ble_send_event :: "system \<Rightarrow> BLEEvent \<Rightarrow> bool \<times> system" where
  "ble_send_event sys ev =
     (if \<not> ble_link sys then (False, sys\<lparr>ble_calls := ble_calls sys @ [(ev, False)]\<rparr>)
      else (True, sys\<lparr>ble_calls := ble_calls sys @ [(ev, True)]\<rparr>))"

definition feedback_trigger :: "system \<Rightarrow> FeedbackType \<Rightarrow> real \<Rightarrow> system" where
  "feedback_trigger sys t intensity =
     sys\<lparr>feedback_calls := feedback_calls sys @ [(t, intensity)]\<rparr>"

definition get_session_timestamp :: "main_state \<Rightarrow> u32 \<Rightarrow> real" where
  "get_session_timestamp m now =
     (if \<not> session_active m \<or> session_start_time m = 0 then 0
      else real (unat (now - session_start_time m)) / 1000)"

text \<open>\<^verbatim>\<open>send_event\<close>; \<open>now\<close> is the clock reading taken by \<^verbatim>\<open>get_session_timestamp\<close>.
  \<open>make_event\<close> is the event it builds before handing it to \<^verbatim>\<open>ble_send_event\<close>.\<close>

definition make_event :: "main_state \<Rightarrow> BLEEventType \<Rightarrow> real \<Rightarrow> u32 \<Rightarrow> BLEEvent" where
  "make_event m t extra_data now =
     (let ev = \<lparr>event_type = t, timestamp = get_session_timestamp m now,
                 event_confidence = 8 / 10, event_pitch_hz = 0,
                 response_latency = 0, silence_duration = 0\<rparr>
      in if t = BLE_EVENT_RETURN then ev\<lparr>response_latency := extra_data\<rparr>
         else if t = BLE_EVENT_MISSED_OPPORTUNITY then ev\<lparr>silence_duration := extra_data\<rparr>
         else ev)"

definition send_event :: "system \<Rightarrow> BLEEventType \<Rightarrow> real \<Rightarrow> u32 \<Rightarrow> system" where
  "send_event sys t extra_data now =
     (case ble_send_event sys (make_event (main sys) t extra_data now) of
        (sent, sys1) \<Rightarrow>
          if sent
          then sys1\<lparr>main := (main sys1)\<lparr>session_event_count :=
                                             session_event_count (main sys1) + 1\<rparr>\<rparr>
          else sys1)"

text \<open>\<^verbatim>\<open>on_session_control\<close>; \<open>now\<close> and \<open>now_vad\<close> are the clock readings taken for
  \<^verbatim>\<open>session_start_time\<close> and inside \<^verbatim>\<open>vad_reset\<close>.\<close>

definition on_session_control :: "system \<Rightarrow> bool \<Rightarrow> u32 \<Rightarrow> u32 \<Rightarrow> system" where
  "on_session_control sys start now now_vad =
     (if start \<and> \<not> session_active (main sys) then
        let sys1 = sys\<lparr>main := (main sys)\<lparr>session_active := True,
                                            session_start_time := now,
                                            session_event_count := 0,
                                            last_was_speaking := False,
                                            last_speech_end_time := 0,
                                            waiting_for_response := False,
                                            last_was_child := False\<rparr>\<rparr>;
            sys2 = sys1\<lparr>vad := vad_reset (vad sys1) now_vad\<rparr>;
            sys3 = sys2\<lparr>audio := audio_start (audio sys2)\<rparr>
        in feedback_trigger sys3 FEEDBACK_SESSION_START 1
      else if \<not> start \<and> session_active (main sys) then
        let sys1 = sys\<lparr>main := (main sys)\<lparr>session_active := False\<rparr>\<rparr>;
            sys2 = sys1\<lparr>audio := audio_stop (audio sys1)\<rparr>
        in feedback_trigger sys2 FEEDBACK_SESSION_END 1
      else sys)"


text \<open>\<^verbatim>\<open>process_speech_segment\<close>; \<open>now_ev\<close> is the clock reading of the event it may send.\<close>

definition process_speech_segment :: "system \<Rightarrow> SpeechSegment \<Rightarrow> u32 \<Rightarrow> system" where
  "process_speech_segment sys segment now_ev =
     (let is_child = (avg_energy segment < 1 / 10)
      in if is_child then
           let sys1 = send_event sys BLE_EVENT_SERVE 0 now_ev
           in sys1\<lparr>main := (main sys1)\<lparr>waiting_for_response := True,
                                         child_speech_time := end_ms segment,
                                         last_was_child := True\<rparr>\<rparr>
         else if waiting_for_response (main sys) then
           let response_time = start_ms segment - child_speech_time (main sys);
               sys1 = (if response_time \<le> RESPONSE_THRESHOLD_MS then
                         feedback_trigger
                           (send_event sys BLE_EVENT_RETURN (real (unat response_time) / 1000) now_ev)
                           FEEDBACK_GOOD_TURN (3 / 10)
                       else sys)
           in sys1\<lparr>main := (main sys1)\<lparr>waiting_for_response := False,
                                         last_was_child := False\<rparr>\<rparr>
         else sys)"


text \<open>What one pass of \<^verbatim>\<open>loop()\<close> reads from outside: the clock at its start, the
  outcome of \<^verbatim>\<open>i2s_read\<close>, the (uninitialised) local frame and segment, and the clock
  readings of \<^verbatim>\<open>audio_get_frame\<close>, of the event of a closed segment, of
  \<^verbatim>\<open>vad_silence_duration\<close> and of the missed-opportunity event.\<close>

record tick_input =
  now_loop :: u32
  i2s :: i2s_read
  frame0 :: AudioFrame
  segment0 :: SpeechSegment
  now_frame :: u32
  now_segment :: u32
  now_silence :: u32
  now_missed :: u32

text \<open>The part of \<^verbatim>\<open>loop()\<close> from \<^verbatim>\<open>audio_process\<close> to the tracking of the speaking
  state, for an active session.\<close>

definition loop_frame_stage :: "system \<Rightarrow> tick_input \<Rightarrow> system" where
  "loop_frame_stage sys inp =
     (case audio_get_frame (audio sys) (now_frame inp) (Some (frame0 inp)) of
        (got_frame, frame, audio1) \<Rightarrow>
          let sys1 = sys\<lparr>audio := audio1\<rparr>
          in if \<not> got_frame then sys1
             else
               case vad_process (vad sys1) frame of
                 (vad_result, vad1) \<Rightarrow>
                   (case vad_get_segment vad1 (Some (segment0 inp)) of
                      (got_segment, segment, vad2) \<Rightarrow>
                        let sys2 = sys1\<lparr>vad := vad2\<rparr>;
                            sys3 = (case segment of
                                      Some s \<Rightarrow>
                                        if got_segment
                                        then process_speech_segment sys2 s (now_segment inp)
                                        else sys2
                                    | None \<Rightarrow> sys2);
                            sys4 = (if \<not> is_speech vad_result \<and> last_was_speaking (main sys3)
                                    then sys3\<lparr>main := (main sys3)\<lparr>last_speech_end_time :=
                                                                      now_loop inp\<rparr>\<rparr>
                                    else sys3)
                        in sys4\<lparr>main := (main sys4)\<lparr>last_was_speaking :=
                                                       is_speech vad_result\<rparr>\<rparr>))"





text \<open>The number of events of one type among the calls of \<^verbatim>\<open>ble_send_event\<close>.\<close>

definition count_events :: "BLEEventType \<Rightarrow> (BLEEvent \<times> bool) list \<Rightarrow> nat" where
  "count_events t calls = length (filter (\<lambda>c. event_type (fst c) = t) calls)"

text \<open>The turn-taking balance between two states: the missed opportunities sent since the
  first state, plus the serve still waiting in the second, are covered by the serves sent
  since the first state plus the serve waiting there.\<close>

definition turn_le :: "system \<Rightarrow> system \<Rightarrow> bool" where
  "turn_le s s' \<longleftrightarrow>
     count_events BLE_EVENT_MISSED_OPPORTUNITY (ble_calls s') +
       (if waiting_for_response (main s') then 1 else 0) +
       count_events BLE_EVENT_SERVE (ble_calls s)
     \<le> count_events BLE_EVENT_SERVE (ble_calls s') +
       count_events BLE_EVENT_MISSED_OPPORTUNITY (ble_calls s) +
       (if waiting_for_response (main s) then 1 else 0)"

text \<open>The static initial values of \<^verbatim>\<open>main.cpp\<close>, and the firmware after \<^verbatim>\<open>setup()\<close>
  (adaptive threshold enabled) with the application connected.\<close>

definition main_power_on :: main_state where
  "main_power_on =
     \<lparr>session_active = False, session_start_time = 0, session_event_count = 0,
      last_was_speaking = False, last_speech_end_time = 0, waiting_for_response = False,
      child_speech_time = 0, last_was_child = False, last_status_update = 0,
      last_debug_print = 0\<rparr>"

definition sys_boot :: system where
  "sys_boot =
     \<lparr>main = main_power_on, vad = vad_set_adaptive vad_boot True, audio = audio_boot,
      ble_link = True, ble_calls = [], feedback_calls = []\<rparr>"

text \<open>A firmware state left behind by a stopped session: the detector ran in adaptive mode
  over a loud frame and two quiet ones, 960 samples were captured and not read, and a serve
  was recorded at 1150 ms.\<close>

definition sys_prev :: system where
  "sys_prev =
     \<lparr>main = main_power_on\<lparr>session_start_time := 500, child_speech_time := 1150\<rparr>,
      vad = snd (vad_run (vad_set_adaptive vad_boot True)
                   [loud_frame 1000, quiet_frame 1150, quiet_frame 1360]),
      audio = audio_stop (audio_process (audio_start audio_boot)
                \<lparr>esp_ok = True, bytes_read = 1920, temp_buffer = replicate DMA_BUF_LEN 0\<rparr>),
      ble_link = True, ble_calls = [], feedback_calls = []\<rparr>"



section \<open>Properties\<close>

subsection \<open>Ring buffer: cursor arithmetic\<close>

lemma mod_wrap: "a < C \<Longrightarrow> b < C \<Longrightarrow> (a + b) mod C = (if a + b < C then a + b else a + b - C)" for a b C :: nat
  by (simp add: le_mod_geq)

lemma mod_succ_wrap: "a < C \<Longrightarrow> Suc a mod C = (if Suc a = C then 0 else Suc a)" for a C :: nat
  by (auto simp: mod_Suc)

lemma navail_less: "W < C \<Longrightarrow> R < C \<Longrightarrow> navail C W R < C"
  unfolding navail_def by (cases "R \<le> W") simp_all

lemma navail_write: "W < C \<Longrightarrow> R < C \<Longrightarrow> (R + navail C W R) mod C = W"
  unfolding navail_def by (cases "R \<le> W") simp_all

lemma navail_full_iff:
  "W < C \<Longrightarrow> R < C \<Longrightarrow> Suc W mod C = R \<longleftrightarrow> Suc (navail C W R) = C"
  unfolding navail_def by (cases "R \<le> W"; cases "Suc W = C"; simp add: mod_succ_wrap) arith+

lemma navail_push:
  "W < C \<Longrightarrow> R < C \<Longrightarrow> Suc W mod C \<noteq> R \<Longrightarrow> navail C (Suc W mod C) R = Suc (navail C W R)"
  unfolding navail_def by (cases "R \<le> W"; cases "Suc W = C"; simp add: mod_succ_wrap)

lemma navail_push_full:
  "W < C \<Longrightarrow> R < C \<Longrightarrow> Suc W mod C = R \<Longrightarrow> navail C R (Suc R mod C) = C - 1"
  unfolding navail_def by (cases "Suc R = C"; simp add: mod_succ_wrap)

lemma navail_read:
  "W < C \<Longrightarrow> R < C \<Longrightarrow> m \<le> navail C W R \<Longrightarrow> navail C W ((R + m) mod C) = navail C W R - m"
  unfolding navail_def by (cases "R \<le> W"; cases "R + m < C"; simp add: le_mod_geq) arith

lemma cells_inj:
  fixes k n C R :: nat
  assumes "k < n" "n < C"
  shows "(R + k) mod C \<noteq> (R + n) mod C"
proof -
  define r where "r = R mod C"
  have "0 < C" using assms by simp
  then have r: "r < C" by (simp add: r_def)
  have "(R + k) mod C = (r + k) mod C" "(R + n) mod C = (r + n) mod C"
    by (simp_all add: r_def mod_add_left_eq)
  moreover have "(r + k) mod C \<noteq> (r + n) mod C"
    using assms r by (simp add: mod_wrap) arith
  ultimately show ?thesis by simp
qed

lemma cells_push:
  assumes "length buf = C" "n < C" "W = (R + n) mod C"
  shows "cells C (buf[W := x]) R (Suc n) = cells C buf R n @ [x]"
proof -
  have "W < C" using assms by simp
  have neq: "\<And>k. k < n \<Longrightarrow> (R + k) mod C \<noteq> W"
    using assms cells_inj by blast
  have "map (\<lambda>k. buf[W := x] ! ((R + k) mod C)) [0..<n] = map (\<lambda>k. buf ! ((R + k) mod C)) [0..<n]"
  proof (rule map_cong [OF refl])
    fix k assume "k \<in> set [0..<n]"
    then have "k < n" by simp
    from neq [OF this] show "buf[W := x] ! ((R + k) mod C) = buf ! ((R + k) mod C)"
      by (simp add: nth_list_update_neq)
  qed
  moreover have "buf[W := x] ! ((R + n) mod C) = x"
    using assms \<open>W < C\<close> by simp
  ultimately show ?thesis by (simp add: cells_def)
qed

lemma cells_shift: "cells C buf (Suc R mod C) n = tl (cells C buf R (Suc n))"
proof -
  have "tl (map (\<lambda>k. buf ! ((R + k) mod C)) [0..<Suc n]) = map (\<lambda>k. buf ! ((R + Suc k) mod C)) [0..<n]"
    by (simp add: map_tl [symmetric] map_Suc_upt [symmetric] del: upt_Suc)
  moreover have "\<And>k. (Suc R mod C + k) mod C = (R + Suc k) mod C"
    by (simp add: mod_add_left_eq)
  ultimately show ?thesis by (simp add: cells_def del: upt_Suc)
qed

lemma cells_take: "m \<le> n \<Longrightarrow> take m (cells C buf R n) = cells C buf R m"
  by (simp add: cells_def take_map)

lemma cells_drop: "drop m (cells C buf R n) = cells C buf ((R + m) mod C) (n - m)"
proof -
  have "drop m [0..<n] = map (\<lambda>k. m + k) [0..<n - m]"
  proof (cases "m \<le> n")
    case True then show ?thesis by (simp add: map_add_upt drop_upt add.commute)
  next
    case False then show ?thesis by simp
  qed
  moreover have "\<And>k. ((R + m) mod C + k) mod C = (R + (m + k)) mod C"
    by (simp add: mod_add_left_eq add.assoc)
  ultimately show ?thesis by (simp add: cells_def drop_map comp_def)
qed

lemma C_val: "AUDIO_BUFFER_SIZE = 160000"
  by (simp add: AUDIO_BUFFER_SIZE_def AUDIO_SAMPLE_RATE_def AUDIO_BUFFER_SECONDS_def)

lemma unat_succ_mod:
  fixes w :: u32
  assumes "unat w < 160000"
  shows "unat ((w + 1) mod 160000) = Suc (unat w) mod 160000"
proof -
  have "unat (w + 1) = Suc (unat w)"
    using assms by (simp add: unat_word_ariths)
  then show ?thesis by (simp add: unat_mod_distrib)
qed

lemma unat_add_mod:
  fixes w :: u32
  assumes "unat w < 160000" "k < 160000"
  shows "unat ((w + word_of_nat k) mod 160000) = (unat w + k) mod 160000"
proof -
  have "unat (word_of_nat k :: u32) = k"
    using assms by (simp add: unat_of_nat)
  then have "unat (w + word_of_nat k) = unat w + k"
    using assms by (simp add: unat_word_ariths)
  then show ?thesis by (simp add: unat_mod_distrib)
qed

lemma avail_nat:
  assumes "audio_inv st"
  shows "unat (audio_frames_available st) =
         navail AUDIO_BUFFER_SIZE (unat (write_index st)) (unat (read_index st))"
proof -
  let ?w = "write_index st" and ?r = "read_index st"
  have w: "unat ?w < 160000" and r: "unat ?r < 160000"
    using assms by (simp_all add: audio_inv_def C_val)
  show ?thesis
  proof (cases "?r \<le> ?w")
    case True
    then have le: "unat ?r \<le> unat ?w" by (simp add: word_le_nat_alt)
    have "unat (?w - ?r) = unat ?w - unat ?r"
      using True by (simp add: unat_sub)
    then show ?thesis using True le
      by (simp add: audio_frames_available_def navail_def Let_def)
  next
    case False
    then have lt: "unat ?w < unat ?r" by (simp add: word_le_nat_alt)
    have "unat (160000 - ?r) = 160000 - unat ?r"
      using r by (simp add: unat_sub_if_size word_size) 
    then have "unat (160000 - ?r + ?w) = 160000 - unat ?r + unat ?w"
      using w r lt by (simp add: unat_word_ariths)
    then show ?thesis using False lt
      by (simp add: audio_frames_available_def navail_def C_val Let_def)
  qed
qed

lemma unread_cells:
  "audio_inv st \<Longrightarrow> unread st = cells AUDIO_BUFFER_SIZE (audio_buffer st) (unat (read_index st))
      (navail AUDIO_BUFFER_SIZE (unat (write_index st)) (unat (read_index st)))"
  by (simp add: unread_def cells_def avail_nat)

lemma push_sample_fields:
  assumes "audio_inv st"
  shows "audio_buffer (push_sample st x) = (audio_buffer st)[unat (write_index st) := x]"
    and "unat (write_index (push_sample st x)) = Suc (unat (write_index st)) mod AUDIO_BUFFER_SIZE"
    and "unat (read_index (push_sample st x)) =
           (if Suc (unat (write_index st)) mod AUDIO_BUFFER_SIZE = unat (read_index st)
            then Suc (unat (read_index st)) mod AUDIO_BUFFER_SIZE else unat (read_index st))"
proof -
  have w: "unat (write_index st) < 160000" and r: "unat (read_index st) < 160000"
    using assms by (simp_all add: audio_inv_def C_val)
  have eq: "((write_index st + 1) mod 160000 = read_index st) \<longleftrightarrow>
        (Suc (unat (write_index st)) mod 160000 = unat (read_index st))"
    using unat_succ_mod [OF w] by (metis word_unat_eq_iff)
  show "audio_buffer (push_sample st x) = (audio_buffer st)[unat (write_index st) := x]"
    by (simp add: push_sample_def Let_def)
  show "unat (write_index (push_sample st x)) = Suc (unat (write_index st)) mod AUDIO_BUFFER_SIZE"
  proof -
    have "write_index (push_sample st x) = (write_index st + 1) mod 160000"
      by (simp add: push_sample_def Let_def C_val)
    then show ?thesis using unat_succ_mod [OF w] by (simp add: C_val)
  qed
  show "unat (read_index (push_sample st x)) =
           (if Suc (unat (write_index st)) mod AUDIO_BUFFER_SIZE = unat (read_index st)
            then Suc (unat (read_index st)) mod AUDIO_BUFFER_SIZE else unat (read_index st))"
    using eq unat_succ_mod [OF r] by (simp add: push_sample_def Let_def C_val)
qed

lemma push_sample_inv:
  assumes "audio_inv st"
  shows "audio_inv (push_sample st x)"
  using assms push_sample_fields [OF assms, of x]
  by (simp add: audio_inv_def C_val)

lemma push_sample_unread:
  assumes "audio_inv st"
  shows "unread (push_sample st x) = queue_push (unread st) x"
proof -
  let ?C = AUDIO_BUFFER_SIZE
  let ?W = "unat (write_index st)" and ?R = "unat (read_index st)"
  let ?buf = "audio_buffer st"
  let ?n = "navail ?C ?W ?R"
  have len: "length ?buf = ?C" and w: "?W < ?C" and r: "?R < ?C"
    using assms by (simp_all add: audio_inv_def)
  have C1: "1 < ?C" by (simp add: C_val)
  note f = push_sample_fields [OF assms, of x]
  have n: "?n < ?C" using w r by (rule navail_less)
  have wr: "?W = (?R + ?n) mod ?C" using navail_write [OF w r] by simp
  have step: "cells ?C (?buf[?W := x]) ?R (Suc ?n) = cells ?C ?buf ?R ?n @ [x]"
    using len n wr by (rule cells_push)
  have lenq: "length (unread st) = ?n"
    by (simp add: unread_cells [OF assms] cells_def)
  show ?thesis
  proof (cases "Suc ?W mod ?C = ?R")
    case True
    then have full: "Suc ?n = ?C" using navail_full_iff [OF w r] by simp
    have "unread (push_sample st x) = cells ?C (?buf[?W := x]) (Suc ?R mod ?C) (?C - 1)"
      using True navail_push_full [OF w r True]
      by (simp add: unread_cells [OF push_sample_inv [OF assms]] f)
    also have "\<dots> = tl (cells ?C (?buf[?W := x]) ?R (Suc ?n))"
      using full by (simp add: cells_shift)
    also have "\<dots> = tl (unread st @ [x])"
      by (simp only: step unread_cells [OF assms])
    also have "\<dots> = tl (unread st) @ [x]"
      using lenq full C1 by (cases "unread st") auto
    finally show ?thesis using lenq full by (simp add: queue_push_def)
  next
    case False
    then have nf: "Suc ?n \<noteq> ?C" using navail_full_iff [OF w r] by simp
    have "unread (push_sample st x) = cells ?C (?buf[?W := x]) ?R (Suc ?n)"
      using False navail_push [OF w r False]
      by (simp add: unread_cells [OF push_sample_inv [OF assms]] f)
    then show ?thesis using nf lenq
      by (simp add: step unread_cells [OF assms] queue_push_def)
  qed
qed

lemma F_val: "AUDIO_FRAME_SAMPLES = 480" by (simp add: AUDIO_FRAME_SAMPLES_def)

lemma frame_cells:
  assumes "audio_inv st"
  shows "map (\<lambda>i. audio_buffer st !
                 unat ((read_index st + word_of_nat i) mod word_of_nat AUDIO_BUFFER_SIZE))
             [0..<AUDIO_FRAME_SAMPLES]
         = cells AUDIO_BUFFER_SIZE (audio_buffer st) (unat (read_index st)) AUDIO_FRAME_SAMPLES"
proof -
  have r: "unat (read_index st) < 160000"
    using assms by (simp add: audio_inv_def C_val)
  have "\<And>i. i < 480 \<Longrightarrow>
      unat ((read_index st + word_of_nat i) mod 160000) = (unat (read_index st) + i) mod 160000"
    using unat_add_mod [OF r] by simp
  then show ?thesis
    unfolding cells_def by (intro map_cong) (simp_all add: C_val F_val)
qed

lemma get_frame_read_index:
  assumes "audio_inv st"
  shows "unat ((read_index st + word_of_nat AUDIO_FRAME_SAMPLES) mod word_of_nat AUDIO_BUFFER_SIZE)
         = (unat (read_index st) + AUDIO_FRAME_SAMPLES) mod AUDIO_BUFFER_SIZE"
proof -
  have r: "unat (read_index st) < 160000"
    using assms by (simp add: audio_inv_def C_val)
  show ?thesis using unat_add_mod [OF r, of 480] by (simp add: C_val F_val)
qed

lemma avail_frame_test:
  assumes "audio_inv st"
  shows "audio_frames_available st < word_of_nat AUDIO_FRAME_SAMPLES \<longleftrightarrow>
         length (unread st) < AUDIO_FRAME_SAMPLES"
  by (simp add: unread_def word_less_nat_alt F_val)

lemma get_frame_not_ready:
  assumes "audio_inv st" "length (unread st) < AUDIO_FRAME_SAMPLES"
  shows "audio_get_frame st now (Some f) = (False, Some (f\<lparr>valid := False\<rparr>), st)"
  using assms avail_frame_test [OF assms(1)]
  by (simp add: audio_get_frame_def Let_def)

lemma get_frame_ready:
  assumes "audio_inv st" "\<not> length (unread st) < AUDIO_FRAME_SAMPLES"
  shows "audio_get_frame st now (Some f) =
           (True,
            Some (f\<lparr>samples := take AUDIO_FRAME_SAMPLES (unread st), timestamp_ms := now, valid := True\<rparr>),
            st\<lparr>read_index := (read_index st + word_of_nat AUDIO_FRAME_SAMPLES)
                             mod word_of_nat AUDIO_BUFFER_SIZE\<rparr>)"
proof -
  have "AUDIO_FRAME_SAMPLES \<le> navail AUDIO_BUFFER_SIZE (unat (write_index st)) (unat (read_index st))"
    using assms(2) by (simp add: unread_cells [OF assms(1)] cells_def)
  then have "take AUDIO_FRAME_SAMPLES (unread st) =
     cells AUDIO_BUFFER_SIZE (audio_buffer st) (unat (read_index st)) AUDIO_FRAME_SAMPLES"
    by (simp add: unread_cells [OF assms(1)] cells_take)
  then show ?thesis
    using assms(2) avail_frame_test [OF assms(1)] frame_cells [OF assms(1)]
    by (simp add: audio_get_frame_def Let_def)
qed

lemma get_frame_state:
  assumes "audio_inv st" "\<not> length (unread st) < AUDIO_FRAME_SAMPLES"
  defines "st' \<equiv> st\<lparr>read_index := (read_index st + word_of_nat AUDIO_FRAME_SAMPLES)
                             mod word_of_nat AUDIO_BUFFER_SIZE\<rparr>"
  shows "audio_inv st'" and "unread st' = drop AUDIO_FRAME_SAMPLES (unread st)"
proof -
  let ?C = AUDIO_BUFFER_SIZE
  have w: "unat (write_index st) < ?C" and r: "unat (read_index st) < ?C"
    using assms(1) by (simp_all add: audio_inv_def)
  have r': "unat (read_index st') = (unat (read_index st) + AUDIO_FRAME_SAMPLES) mod ?C"
    using get_frame_read_index [OF assms(1)] by (simp add: st'_def)
  show inv: "audio_inv st'"
    using assms(1) r' by (simp add: audio_inv_def st'_def C_val)
  have m: "AUDIO_FRAME_SAMPLES \<le> navail ?C (unat (write_index st)) (unat (read_index st))"
    using assms(2) by (simp add: unread_cells [OF assms(1)] cells_def)
  have "unread st' = cells ?C (audio_buffer st) ((unat (read_index st) + AUDIO_FRAME_SAMPLES) mod ?C)
          (navail ?C (unat (write_index st)) (unat (read_index st)) - AUDIO_FRAME_SAMPLES)"
    using navail_read [OF w r m] r'
    by (simp add: unread_cells [OF inv]) (simp add: st'_def)
  then show "unread st' = drop AUDIO_FRAME_SAMPLES (unread st)"
    by (simp add: unread_cells [OF assms(1)] cells_drop)
qed

lemma navail_int:
  assumes "W < C" "R < C"
  shows "(int W - int R) mod int C = int (navail C W R)"
proof (cases "R \<le> W")
  case True
  then have "int W - int R = int (W - R)" by simp
  moreover have "int (W - R) mod int C = int (W - R)"
    using assms by (intro mod_pos_pos_trivial) simp_all
  ultimately show ?thesis using True by (simp add: navail_def)
next
  case False
  have a: "int W - int R + int C = int (C - R + W)" using assms False by simp
  have "(int W - int R) mod int C = (int W - int R + int C) mod int C"
    by simp
  also have "\<dots> = int (C - R + W) mod int C" by (simp only: a)
  also have "\<dots> = int (C - R + W)"
    using assms False by (intro mod_pos_pos_trivial) simp_all
  finally show ?thesis using False by (simp only: navail_def if_False)
qed

lemma inv_avail_law:
  assumes "audio_inv st"
  shows "avail_law st"
proof -
  have "unat (write_index st) < AUDIO_BUFFER_SIZE" "unat (read_index st) < AUDIO_BUFFER_SIZE"
    using assms by (simp_all add: audio_inv_def)
  from navail_int [OF this] show ?thesis
    unfolding avail_law_def by (simp only: avail_nat [OF assms])
qed

lemma push_samples_queue:
  "audio_inv st \<Longrightarrow>
     audio_inv (push_samples st xs) \<and> unread (push_samples st xs) = foldl queue_push (unread st) xs"
proof (induction xs arbitrary: st)
  case Nil
  then show ?case by simp
next
  case (Cons x xs)
  from Cons.prems have "audio_inv (push_sample st x)" by (rule push_sample_inv)
  from Cons.IH [OF this] show ?case
    by (simp add: push_sample_unread [OF Cons.prems])
qed

lemma get_frame_queue:
  assumes "audio_inv st"
  shows "(case audio_get_frame st now (Some f) of
            (ok, fr, st1) \<Rightarrow>
              audio_inv st1 \<and>
              ((case fr of Some g \<Rightarrow> (if ok then Some (samples g) else None) | None \<Rightarrow> None),
               unread st1) = queue_frame (unread st))"
proof (cases "length (unread st) < AUDIO_FRAME_SAMPLES")
  case True
  then show ?thesis
    using assms by (simp add: get_frame_not_ready [OF assms True] queue_frame_def)
next
  case False
  then show ?thesis
    using get_frame_state [OF assms False]
    by (simp add: get_frame_ready [OF assms False] queue_frame_def)
qed

lemma audio_run_queue:
  "audio_inv st \<Longrightarrow>
     fst (audio_run st ops) = fst (queue_run (unread st) ops) \<and>
     unread (snd (audio_run st ops)) = snd (queue_run (unread st) ops) \<and>
     audio_inv (snd (audio_run st ops))"
proof (induction ops arbitrary: st)
  case Nil
  then show ?case by simp
next
  case (Cons op ops)
  show ?case
  proof (cases op)
    case (Push xs)
    from push_samples_queue [OF Cons.prems, of xs] Cons.IH [of "push_samples st xs"]
    show ?thesis by (simp add: Push)
  next
    case (Read now f)
    obtain ok fr st1 where g: "audio_get_frame st now (Some f) = (ok, fr, st1)"
      by (cases "audio_get_frame st now (Some f)") auto
    from get_frame_queue [OF Cons.prems, of now f] g
    have inv1: "audio_inv st1"
      and q: "queue_frame (unread st) =
               ((case fr of Some g \<Rightarrow> (if ok then Some (samples g) else None) | None \<Rightarrow> None), unread st1)"
      by simp_all
    from Cons.IH [OF inv1] show ?thesis
      by (auto simp: Read g q split: prod.splits option.splits)
  qed
qed

lemma audio_boot_simps:
  "audio_buffer audio_boot = replicate AUDIO_BUFFER_SIZE 0"
  "write_index audio_boot = 0" "read_index audio_boot = 0"
  "is_initialized audio_boot" "\<not> is_running audio_boot"
  by (simp_all add: audio_boot_def audio_init_def audio_power_on_def Let_def)

lemma audio_boot_inv: "audio_inv audio_boot"
  by (simp add: audio_inv_def audio_boot_simps C_val)

lemma audio_boot_unread: "unread audio_boot = []"
  by (simp add: unread_def audio_frames_available_def audio_boot_simps)

lemma length_unread: "length (unread st) = unat (audio_frames_available st)"
  by (simp add: unread_def)

lemma length_queue_push:
  "length q < AUDIO_BUFFER_SIZE \<Longrightarrow>
     length (queue_push q x) = min (Suc (length q)) (AUDIO_BUFFER_SIZE - 1)"
  by (cases q) (auto simp: queue_push_def C_val)

lemma length_foldl_queue_push:
  "length q < AUDIO_BUFFER_SIZE \<Longrightarrow>
     length (foldl queue_push q xs) = min (length q + length xs) (AUDIO_BUFFER_SIZE - 1)"
proof (induction xs arbitrary: q)
  case Nil
  then show ?case by simp
next
  case (Cons x xs)
  have l: "length (queue_push q x) = min (Suc (length q)) (AUDIO_BUFFER_SIZE - 1)"
    using Cons.prems by (rule length_queue_push)
  then have "length (queue_push q x) < AUDIO_BUFFER_SIZE"
    by (simp add: C_val)
  from Cons.IH [OF this] l show ?case by (simp add: min_def)
qed

text \<open>
  Claim C9.  In every state whose cursors are below the capacity (the states reachable from
  \<^verbatim>\<open>audio_init\<close>), a push and a frame read keep the cursors in range and keep
  \<open>available = (W - R) mod C\<close>; a push whose write cursor catches up with the read cursor
  advances the read cursor by exactly one (and no other push moves it); the unread samples
  behave as the specification's queue: a push appends the sample and drops only the oldest
  one when the buffer is full, a frame read delivers the oldest \<open>AUDIO_FRAME_SAMPLES\<close>
  samples in push order and removes exactly them.  Hence over any sequence of pushes and
  reads the frames delivered are those of the queue.
\<close>

theorem ring_buffer_fifo:
  assumes "audio_inv st"
  shows "(audio_inv (push_sample st x) \<and> avail_law (push_sample st x) \<and>
          read_index (push_sample st x) =
            (if (write_index st + 1) mod word_of_nat AUDIO_BUFFER_SIZE = read_index st
             then (read_index st + 1) mod word_of_nat AUDIO_BUFFER_SIZE else read_index st) \<and>
          unread (push_sample st x) = queue_push (unread st) x) \<and>
         (case audio_get_frame st now (Some f) of
            (ok, fr, st1) \<Rightarrow>
              audio_inv st1 \<and> avail_law st1 \<and>
              ((case fr of Some g \<Rightarrow> (if ok then Some (samples g) else None) | None \<Rightarrow> None),
               unread st1) = queue_frame (unread st)) \<and>
         fst (audio_run st ops) = fst (queue_run (unread st) ops) \<and>
         unread (snd (audio_run st ops)) = snd (queue_run (unread st) ops)"
proof -
  have p: "audio_inv (push_sample st x)" using assms by (rule push_sample_inv)
  have r: "read_index (push_sample st x) =
            (if (write_index st + 1) mod word_of_nat AUDIO_BUFFER_SIZE = read_index st
             then (read_index st + 1) mod word_of_nat AUDIO_BUFFER_SIZE else read_index st)"
    by (simp add: push_sample_def Let_def)
  have g: "(case audio_get_frame st now (Some f) of
            (ok, fr, st1) \<Rightarrow>
              audio_inv st1 \<and> avail_law st1 \<and>
              ((case fr of Some g \<Rightarrow> (if ok then Some (samples g) else None) | None \<Rightarrow> None),
               unread st1) = queue_frame (unread st))"
    using get_frame_queue [OF assms, of now f]
    by (auto split: prod.splits intro: inv_avail_law)
  show ?thesis
    using p inv_avail_law [OF p] r push_sample_unread [OF assms, of x] g
      audio_run_queue [OF assms, of ops]
    by blast
qed

theorem ring_buffer_fifo_witness:
  "audio_inv audio_boot \<and>
   unread (push_sample audio_boot 7) = [7] \<and>
   read_index (push_sample audio_boot 7) = 0 \<and>
   fst (audio_run audio_boot [Push [1, 2, 3], Read 5 \<lparr>samples = [], timestamp_ms = 0, valid = False\<rparr>]) = []"
proof -
  note t = ring_buffer_fifo [OF audio_boot_inv, of 7 0 "\<lparr>samples = [], timestamp_ms = 0, valid = False\<rparr>"
      "[Push [1, 2, 3], Read 5 \<lparr>samples = [], timestamp_ms = 0, valid = False\<rparr>]"]
  have a: "unread (push_sample audio_boot 7) = [7]"
    using t by (simp add: audio_boot_unread queue_push_def C_val)
  have b: "read_index (push_sample audio_boot 7) = 0"
    using t by (simp add: audio_boot_simps C_val)
  have c: "fst (audio_run audio_boot [Push [1, 2, 3], Read 5 \<lparr>samples = [], timestamp_ms = 0, valid = False\<rparr>]) = []"
    using t by (simp add: audio_boot_unread queue_push_def queue_frame_def C_val F_val)
  show ?thesis using audio_boot_inv a b c by simp
qed

text \<open>
  Claim C2.  \<^verbatim>\<open>audio_frames_available\<close> returns the number of unread samples, not of
  whole frames: after 960 samples pushed into the freshly initialised buffer it returns 960,
  where two whole frames are buffered and the capacity divided by the frame length is 333.
\<close>

theorem audio_frames_available_counts_samples:
  "unat (audio_frames_available (push_samples audio_boot (replicate 960 0))) = 960 \<and>
   length (unread (push_samples audio_boot (replicate 960 0))) div AUDIO_FRAME_SAMPLES = 2 \<and>
   \<not> unat (audio_frames_available (push_samples audio_boot (replicate 960 0)))
       \<le> AUDIO_BUFFER_SIZE div AUDIO_FRAME_SAMPLES"
proof -
  have "length (unread (push_samples audio_boot (replicate 960 0))) = 960"
    using push_samples_queue [OF audio_boot_inv, of "replicate 960 0"]
    by (simp add: audio_boot_unread length_foldl_queue_push C_val)
  then show ?thesis by (simp add: length_unread C_val F_val)
qed

text \<open>Every operation of the capture module keeps the cursors in range.\<close>

lemma audio_inv_preserved:
  assumes "audio_inv st"
  shows "audio_inv (audio_start st)" "audio_inv (audio_stop st)" "audio_inv (audio_process st rd)"
    "audio_inv (snd (snd (audio_get_frame st now fr)))"
proof -
  show "audio_inv (audio_start st)" "audio_inv (audio_stop st)"
    using assms by (simp_all add: audio_start_def audio_stop_def audio_inv_def)
  have "audio_inv (push_samples st xs)" for xs
    using push_samples_queue [OF assms] by blast
  then show "audio_inv (audio_process st rd)"
    using assms by (simp add: audio_process_def Let_def audio_inv_def)
  show "audio_inv (snd (snd (audio_get_frame st now fr)))"
  proof (cases fr)
    case None
    then show ?thesis using assms by (simp add: audio_get_frame_def)
  next
    case (Some f)
    with get_frame_queue [OF assms, of now f] show ?thesis
      by (auto split: prod.splits)
  qed
qed

subsection \<open>Voice activity detector\<close>

lemma energy_replicate:
  assumes "0 < n"
  shows "calculate_energy (replicate n v) n = \<bar>real_of_int (sint v)\<bar> / 32768"
proof -
  have "map (\<lambda>i. sint (replicate n v ! i) * sint (replicate n v ! i)) [0..<n]
        = map (\<lambda>i. sint v * sint v) [0..<n]"
    by (rule map_cong) simp_all
  moreover have "sum_list (map (\<lambda>i. sint v * sint v) [0..<n]) = int n * (sint v * sint v)"
    by (simp add: sum_list_triv)
  ultimately have "sum_list (map (\<lambda>i. sint (replicate n v ! i) * sint (replicate n v ! i)) [0..<n])
        = int n * (sint v * sint v)"
    by (simp only:)
  moreover have "sqrt (real_of_int (int n * (sint v * sint v)) / real n) = \<bar>real_of_int (sint v)\<bar>"
    using assms by (simp add: real_sqrt_mult_self)
  ultimately show ?thesis using assms by (simp add: calculate_energy_def Let_def)
qed

lemma zcr_replicate: "calculate_zcr (replicate n v) n = 0"
proof -
  have "filter (\<lambda>i. (0 \<le> sint (replicate n v ! i) \<and> sint (replicate n v ! (i - 1)) < 0) \<or>
                     (sint (replicate n v ! i) < 0 \<and> 0 \<le> sint (replicate n v ! (i - 1)))) [1..<n] = []"
    by (auto simp: filter_empty_conv)
  then show ?thesis by (simp add: calculate_zcr_def Let_def)
qed

lemma loud_energy: "calculate_energy (samples (loud_frame t)) AUDIO_FRAME_SAMPLES = 625 / 1024"
  by (simp add: loud_frame_def energy_replicate F_val)

lemma quiet_energy: "calculate_energy (samples (quiet_frame t)) AUDIO_FRAME_SAMPLES = 0"
  by (simp add: quiet_frame_def energy_replicate F_val)

lemma frame_zcr:
  "calculate_zcr (samples (loud_frame t)) AUDIO_FRAME_SAMPLES = 0"
  "calculate_zcr (samples (quiet_frame t)) AUDIO_FRAME_SAMPLES = 0"
  by (simp_all add: loud_frame_def quiet_frame_def zcr_replicate)

lemma frame_fields:
  "valid (loud_frame t)" "valid (quiet_frame t)"
  "timestamp_ms (loud_frame t) = t" "timestamp_ms (quiet_frame t) = t"
  by (simp_all add: loud_frame_def quiet_frame_def)

lemmas vad_eval =
  vad_process_def vad_machine_def transition_to_def frame_is_speech_def
  get_effective_threshold_def update_noise_floor_def vad_get_segment_def
  loud_energy quiet_energy frame_zcr frame_fields Let_def
  VAD_MIN_SPEECH_MS_def VAD_HANGOVER_MS_def VAD_DEFAULT_THRESHOLD_def

lemma vad_boot_eq:
  "vad_boot =
     \<lparr>energy_threshold = 2 / 100, adaptive_enabled = False,
      current_state = VAD_STATE_SILENCE, state_start_time = 0, last_speech_time = 0,
      speech_start_time = 0, noise_floor = 1 / 100, noise_alpha = 995 / 1000,
      pending_segment = \<lparr>start_ms = 0, end_ms = 0, duration_ms = 0, avg_energy = 0\<rparr>,
      segment_ready = False, segment_energy_sum = 0, segment_frame_count = 0\<rparr>"
  by (simp add: vad_boot_def vad_init_def vad_power_on_def VAD_DEFAULT_THRESHOLD_def)

text \<open>
  Claim C10.  Called with a null frame pointer, or with a frame whose validity flag is
  false, \<^verbatim>\<open>vad_process\<close> returns the initial result (\<open>is_speech\<close> false, energy 0, the
  current threshold and state) and leaves every static variable of the detector as it was.
\<close>

theorem vad_process_rejects_bad_frame:
  assumes "frame = None \<or> (\<exists>f. frame = Some f \<and> \<not> valid f)"
  shows "vad_process st frame =
           (\<lparr>is_speech = False, energy = 0, threshold = get_effective_threshold st,
             state = current_state st, speech_start = 0, speech_duration_ms = 0\<rparr>, st)"
  using assms by (auto simp: vad_process_def Let_def)

theorem vad_process_rejects_bad_frame_witness:
  "\<not> valid ((loud_frame 5)\<lparr>valid := False\<rparr>) \<and>
   is_speech (fst (vad_process vad_boot (Some ((loud_frame 5)\<lparr>valid := False\<rparr>)))) = False \<and>
   energy (fst (vad_process vad_boot (Some ((loud_frame 5)\<lparr>valid := False\<rparr>)))) = 0 \<and>
   snd (vad_process vad_boot (Some ((loud_frame 5)\<lparr>valid := False\<rparr>))) = vad_boot \<and>
   snd (vad_process vad_boot None) = vad_boot"
  using vad_process_rejects_bad_frame [of "Some ((loud_frame 5)\<lparr>valid := False\<rparr>)" vad_boot]
        vad_process_rejects_bad_frame [of None vad_boot]
  by simp

text \<open>Exit from Speech is the only place where a segment becomes ready.\<close>

lemma transition_to_ready:
  assumes "\<not> segment_ready st" "segment_ready (transition_to st s now)"
  shows "duration_ms (pending_segment (transition_to st s now)) =
           end_ms (pending_segment (transition_to st s now)) -
           start_ms (pending_segment (transition_to st s now)) \<and>
         VAD_MIN_SPEECH_MS \<le> duration_ms (pending_segment (transition_to st s now))"
  using assms by (auto simp: transition_to_def Let_def split: if_splits)

lemma vad_machine_ready:
  assumes "\<not> segment_ready st" "segment_ready (vad_machine st now e b)"
  shows "duration_ms (pending_segment (vad_machine st now e b)) =
           end_ms (pending_segment (vad_machine st now e b)) -
           start_ms (pending_segment (vad_machine st now e b)) \<and>
         VAD_MIN_SPEECH_MS \<le> duration_ms (pending_segment (vad_machine st now e b))"
proof (cases "current_state st")
  case VAD_STATE_SILENCE
  with assms show ?thesis
    using transition_to_ready [of st VAD_STATE_SPEECH now]
    by (auto simp: vad_machine_def split: if_splits)
next
  case VAD_STATE_SPEECH
  let ?sta = "st\<lparr>segment_energy_sum := segment_energy_sum st + e,
                  segment_frame_count := segment_frame_count st + 1\<rparr>"
  have "\<not> segment_ready ?sta" using assms(1) by simp
  from transition_to_ready [OF this, of VAD_STATE_HANGOVER now] assms VAD_STATE_SPEECH
  show ?thesis
    by (auto simp: vad_machine_def Let_def split: if_splits)
next
  case VAD_STATE_HANGOVER
  with assms show ?thesis
    using transition_to_ready [of st VAD_STATE_SPEECH now]
          transition_to_ready [of st VAD_STATE_SILENCE now]
    by (auto simp: vad_machine_def split: if_splits)
qed

lemma vad_process_ready:
  assumes "\<not> segment_ready st" "segment_ready (snd (vad_process st fr))"
  shows "duration_ms (pending_segment (snd (vad_process st fr))) =
           end_ms (pending_segment (snd (vad_process st fr))) -
           start_ms (pending_segment (snd (vad_process st fr))) \<and>
         VAD_MIN_SPEECH_MS \<le> duration_ms (pending_segment (snd (vad_process st fr)))"
proof (cases "\<exists>f. fr = Some f \<and> valid f")
  case False
  then have "snd (vad_process st fr) = st"
    by (cases fr) (auto simp: vad_process_def Let_def)
  with assms show ?thesis by simp
next
  case True
  then obtain f where f: "fr = Some f" "valid f" by blast
  let ?e = "calculate_energy (samples f) AUDIO_FRAME_SAMPLES"
  let ?st1 = "if adaptive_enabled st then update_noise_floor st ?e else st"
  have n: "\<not> segment_ready ?st1"
    using assms(1) by (simp add: update_noise_floor_def Let_def)
  have s: "snd (vad_process st fr) =
        vad_machine ?st1 (timestamp_ms f) ?e
          (frame_is_speech ?e (calculate_zcr (samples f) AUDIO_FRAME_SAMPLES)
             (get_effective_threshold ?st1))"
    using f by (simp add: vad_process_def Let_def)
  from assms(2) show ?thesis
    unfolding s by (rule vad_machine_ready [OF n])
qed

lemma vad_get_segment_clears:
  "\<not> segment_ready (snd (snd (vad_get_segment st (Some s))))"
  by (simp add: vad_get_segment_def)

lemma vad_get_segment_result:
  "vad_get_segment st (Some s) = (ok, seg, st1) \<Longrightarrow>
     (if segment_ready st then ok \<and> seg = Some (pending_segment st) else \<not> ok)"
  by (auto simp: vad_get_segment_def split: if_splits)

text \<open>
  Claim C8, as amended.  When the detector is driven as the main loop drives it
  (\<^verbatim>\<open>vad_get_segment\<close> after every \<^verbatim>\<open>vad_process\<close>, starting with no segment pending),
  every segment handed out has \<open>duration_ms = end_ms - start_ms\<close> (in 32-bit arithmetic)
  and a duration of at least \<open>VAD_MIN_SPEECH_MS\<close>; so a segment shorter than 100 ms is
  never handed out.
\<close>

theorem vad_segment_duration_law:
  assumes "\<not> segment_ready st"
  shows "\<forall>seg \<in> set (fst (vad_run st frames)).
           duration_ms seg = end_ms seg - start_ms seg \<and> VAD_MIN_SPEECH_MS \<le> duration_ms seg"
  using assms
proof (induction frames arbitrary: st)
  case Nil
  then show ?case by simp
next
  case (Cons f fs)
  let ?st' = "snd (vad_process st (Some f))"
  let ?s0 = "\<lparr>start_ms = 0, end_ms = 0, duration_ms = 0, avg_energy = 0\<rparr>"
  obtain ok seg st1 where g: "vad_get_segment ?st' (Some ?s0) = (ok, seg, st1)"
    by (cases "vad_get_segment ?st' (Some ?s0)") auto
  have "\<not> segment_ready st1"
    using vad_get_segment_clears [of ?st' ?s0] g by simp
  note ih = Cons.IH [OF this]
  have hd: "ok \<Longrightarrow> seg = Some s \<Longrightarrow>
      duration_ms s = end_ms s - start_ms s \<and> VAD_MIN_SPEECH_MS \<le> duration_ms s" for s
    using vad_get_segment_result [OF g] vad_process_ready [OF Cons.prems, of "Some f"]
    by (auto split: if_splits)
  show ?case
    using ih hd by (auto simp: g split: prod.splits option.splits if_splits)
qed

theorem vad_segment_duration_law_witness:
  "\<not> segment_ready vad_boot \<and>
   fst (vad_run vad_boot [loud_frame 1000, quiet_frame 1150]) =
     [\<lparr>start_ms = 1000, end_ms = 1150, duration_ms = 150, avg_energy = 0\<rparr>] \<and>
   duration_ms (hd (fst (vad_run vad_boot [loud_frame 1000, quiet_frame 1150]))) =
     end_ms (hd (fst (vad_run vad_boot [loud_frame 1000, quiet_frame 1150]))) -
     start_ms (hd (fst (vad_run vad_boot [loud_frame 1000, quiet_frame 1150]))) \<and>
   VAD_MIN_SPEECH_MS \<le> duration_ms (hd (fst (vad_run vad_boot [loud_frame 1000, quiet_frame 1150])))"
proof -
  let ?segs = "fst (vad_run vad_boot [loud_frame 1000, quiet_frame 1150])"
  have h: "\<not> segment_ready vad_boot" by (simp add: vad_boot_eq)
  have e: "?segs = [\<lparr>start_ms = 1000, end_ms = 1150, duration_ms = 150, avg_energy = 0\<rparr>]"
    by (simp add: vad_boot_eq vad_eval)
  then have "hd ?segs \<in> set ?segs" by simp
  with vad_segment_duration_law [OF h, of "[loud_frame 1000, quiet_frame 1150]"]
  have "duration_ms (hd ?segs) = end_ms (hd ?segs) - start_ms (hd ?segs) \<and>
        VAD_MIN_SPEECH_MS \<le> duration_ms (hd ?segs)"
    by blast
  with h e show ?thesis by blast
qed

text \<open>
  Claim C8 as stated fails.  A burst of exactly 100 ms is handed out, with a duration that
  does not exceed 100; and when \<^verbatim>\<open>vad_get_segment\<close> is not called before speech resumes,
  the segment handed out later has the start of the new burst and the end of the old one,
  so its duration is not \<open>end_ms - start_ms\<close>.
\<close>

theorem vad_segment_duration_counterexample:
  "fst (vad_run vad_boot [loud_frame 1000, quiet_frame 1100]) =
     [\<lparr>start_ms = 1000, end_ms = 1100, duration_ms = 100, avg_energy = 0\<rparr>] \<and>
   \<not> VAD_MIN_SPEECH_MS < 100 \<and>
   vad_get_segment
     (vad_feed vad_boot [loud_frame 1000, loud_frame 1100, quiet_frame 1150, loud_frame 1180])
     (Some \<lparr>start_ms = 0, end_ms = 0, duration_ms = 0, avg_energy = 0\<rparr>) =
     (True, Some \<lparr>start_ms = 1180, end_ms = 1150, duration_ms = 150, avg_energy = 625 / 2048\<rparr>,
      (vad_feed vad_boot [loud_frame 1000, loud_frame 1100, quiet_frame 1150, loud_frame 1180])
        \<lparr>segment_ready := False\<rparr>) \<and>
   (150 :: u32) \<noteq> 1150 - 1180"
  by (simp add: vad_boot_eq vad_feed_def vad_eval)

text \<open>
  Claim C1.  The segment is finalised when Speech is left, that is on entry to Hangover: five
  loud frames and one quiet frame hand out the segment 1000--1150 while the detector is in
  Hangover.  Speech resuming 30 ms later starts a second segment at 1180, so the 30 ms
  interruption yields two segments and no segment spanning it.
\<close>

theorem hangover_entry_closes_segment:
  "fst (vad_run vad_boot
     [loud_frame 1000, loud_frame 1030, loud_frame 1060, loud_frame 1090, loud_frame 1120,
      quiet_frame 1150]) =
     [\<lparr>start_ms = 1000, end_ms = 1150, duration_ms = 150, avg_energy = 125 / 256\<rparr>] \<and>
   current_state (snd (vad_run vad_boot
     [loud_frame 1000, loud_frame 1030, loud_frame 1060, loud_frame 1090, loud_frame 1120,
      quiet_frame 1150])) = VAD_STATE_HANGOVER \<and>
   fst (vad_run vad_boot
     [loud_frame 1000, loud_frame 1030, loud_frame 1060, loud_frame 1090, loud_frame 1120,
      quiet_frame 1150,
      loud_frame 1180, loud_frame 1210, loud_frame 1240, loud_frame 1270, loud_frame 1300,
      quiet_frame 1330, quiet_frame 1360, quiet_frame 1390, quiet_frame 1420, quiet_frame 1450,
      quiet_frame 1480, quiet_frame 1510, quiet_frame 1540]) =
     [\<lparr>start_ms = 1000, end_ms = 1150, duration_ms = 150, avg_energy = 125 / 256\<rparr>,
      \<lparr>start_ms = 1180, end_ms = 1330, duration_ms = 150, avg_energy = 125 / 256\<rparr>] \<and>
   current_state (snd (vad_run vad_boot
     [loud_frame 1000, loud_frame 1030, loud_frame 1060, loud_frame 1090, loud_frame 1120,
      quiet_frame 1150,
      loud_frame 1180, loud_frame 1210, loud_frame 1240, loud_frame 1270, loud_frame 1300,
      quiet_frame 1330, quiet_frame 1360, quiet_frame 1390, quiet_frame 1420, quiet_frame 1450,
      quiet_frame 1480, quiet_frame 1510, quiet_frame 1540])) = VAD_STATE_SILENCE"
  by (simp add: vad_boot_eq vad_eval)

text \<open>Where the detector finalises a segment: on leaving Speech for Hangover, never on
  leaving Hangover.\<close>

lemma speech_exit_finalises:
  assumes "current_state st = VAD_STATE_SPEECH"
  shows "current_state (vad_machine st now e False) = VAD_STATE_HANGOVER \<and>
         end_ms (pending_segment (vad_machine st now e False)) = now \<and>
         duration_ms (pending_segment (vad_machine st now e False)) =
           now - start_ms (pending_segment st) \<and>
         segment_ready (vad_machine st now e False) =
           (segment_ready st \<or> VAD_MIN_SPEECH_MS \<le> now - start_ms (pending_segment st))"
  using assms by (simp add: vad_machine_def transition_to_def Let_def)

lemma hangover_exit_finalises_nothing:
  assumes "current_state st = VAD_STATE_HANGOVER"
  shows "segment_ready (vad_machine st now e b) = segment_ready st \<and>
         end_ms (pending_segment (vad_machine st now e b)) = end_ms (pending_segment st) \<and>
         duration_ms (pending_segment (vad_machine st now e b)) = duration_ms (pending_segment st)"
  using assms by (simp add: vad_machine_def transition_to_def Let_def)

subsection \<open>Turn detector\<close>

lemma send_event_fields:
  "ble_calls (send_event sys t x now) = ble_calls sys @ [(make_event (main sys) t x now, ble_link sys)]"
  "vad (send_event sys t x now) = vad sys"
  "audio (send_event sys t x now) = audio sys"
  "ble_link (send_event sys t x now) = ble_link sys"
  "feedback_calls (send_event sys t x now) = feedback_calls sys"
  "main (send_event sys t x now) =
     (if ble_link sys then (main sys)\<lparr>session_event_count := session_event_count (main sys) + 1\<rparr>
      else main sys)"
  by (simp_all add: send_event_def ble_send_event_def)

lemma make_event_fields:
  "event_type (make_event m t x now) = t"
  "response_latency (make_event m BLE_EVENT_RETURN x now) = x"
  "silence_duration (make_event m BLE_EVENT_MISSED_OPPORTUNITY x now) = x"
  by (simp_all add: make_event_def Let_def)

text \<open>
  Claim C4.  For a closed segment handed to \<^verbatim>\<open>process_speech_segment\<close>: if it is classified
  Child (the energy heuristic), exactly one event is sent, a Serve, the segment's end time is
  recorded and the waiting flag is set.  Otherwise, if the waiting flag is set, a Return
  carrying \<open>start_ms - child_speech_time\<close> (in seconds) is sent if and only if that
  latency is at most \<open>RESPONSE_THRESHOLD_MS\<close>, and the waiting flag is cleared either way.
  An Adult segment with the flag clear changes nothing.
\<close>

theorem process_speech_segment_turns:
  "(avg_energy seg < 1 / 10 \<longrightarrow>
      ble_calls (process_speech_segment sys seg now) =
        ble_calls sys @ [(make_event (main sys) BLE_EVENT_SERVE 0 now, ble_link sys)] \<and>
      waiting_for_response (main (process_speech_segment sys seg now)) \<and>
      child_speech_time (main (process_speech_segment sys seg now)) = end_ms seg) \<and>
   (\<not> avg_energy seg < 1 / 10 \<and> waiting_for_response (main sys) \<longrightarrow>
      (if start_ms seg - child_speech_time (main sys) \<le> RESPONSE_THRESHOLD_MS
       then ble_calls (process_speech_segment sys seg now) =
              ble_calls sys @
                [(make_event (main sys) BLE_EVENT_RETURN
                    (real (unat (start_ms seg - child_speech_time (main sys))) / 1000) now,
                  ble_link sys)]
       else ble_calls (process_speech_segment sys seg now) = ble_calls sys) \<and>
      \<not> waiting_for_response (main (process_speech_segment sys seg now))) \<and>
   (\<not> avg_energy seg < 1 / 10 \<and> \<not> waiting_for_response (main sys) \<longrightarrow>
      process_speech_segment sys seg now = sys)"
  by (simp add: process_speech_segment_def Let_def send_event_fields feedback_trigger_def)




lemma turn_le_same:
  "ble_calls s' = ble_calls s \<Longrightarrow>
   (waiting_for_response (main s') \<longrightarrow> waiting_for_response (main s)) \<Longrightarrow> turn_le s s'"
  by (simp add: turn_le_def)











lemma sys_boot_simps:
  "main sys_boot = main_power_on" "vad sys_boot = vad_set_adaptive vad_boot True"
  "audio sys_boot = audio_boot" "ble_link sys_boot" "ble_calls sys_boot = []"
  "feedback_calls sys_boot = []"
  by (simp_all add: sys_boot_def)






theorem process_speech_segment_turns_witness:
  "avg_energy \<lparr>start_ms = 1000, end_ms = 1150, duration_ms = 150, avg_energy = 0\<rparr> < 1 / 10 \<and>
   map (\<lambda>c. event_type (fst c))
     (ble_calls (process_speech_segment sys_boot
        \<lparr>start_ms = 1000, end_ms = 1150, duration_ms = 150, avg_energy = 0\<rparr> 1150))
     = [BLE_EVENT_SERVE] \<and>
   child_speech_time (main (process_speech_segment sys_boot
        \<lparr>start_ms = 1000, end_ms = 1150, duration_ms = 150, avg_energy = 0\<rparr> 1150)) = 1150 \<and>
   \<not> avg_energy \<lparr>start_ms = 1650, end_ms = 2000, duration_ms = 350, avg_energy = 1 / 2\<rparr> < 1 / 10 \<and>
   waiting_for_response (main (process_speech_segment sys_boot
        \<lparr>start_ms = 1000, end_ms = 1150, duration_ms = 150, avg_energy = 0\<rparr> 1150)) \<and>
   map (\<lambda>c. (event_type (fst c), response_latency (fst c)))
     (ble_calls (process_speech_segment
        (process_speech_segment sys_boot
           \<lparr>start_ms = 1000, end_ms = 1150, duration_ms = 150, avg_energy = 0\<rparr> 1150)
        \<lparr>start_ms = 1650, end_ms = 2000, duration_ms = 350, avg_energy = 1 / 2\<rparr> 2000))
     = [(BLE_EVENT_SERVE, 0), (BLE_EVENT_RETURN, 1 / 2)] \<and>
   \<not> waiting_for_response (main (process_speech_segment
        (process_speech_segment sys_boot
           \<lparr>start_ms = 1000, end_ms = 1150, duration_ms = 150, avg_energy = 0\<rparr> 1150)
        \<lparr>start_ms = 1650, end_ms = 2000, duration_ms = 350, avg_energy = 1 / 2\<rparr> 2000))"
proof -
  let ?c = "\<lparr>start_ms = 1000, end_ms = 1150, duration_ms = 150, avg_energy = 0\<rparr>"
  let ?a = "\<lparr>start_ms = 1650, end_ms = 2000, duration_ms = 350, avg_energy = 1 / 2\<rparr>"
  let ?s1 = "process_speech_segment sys_boot ?c 1150"
  note t1 = process_speech_segment_turns [of ?c sys_boot 1150]
  note t2 = process_speech_segment_turns [of ?a ?s1 2000]
  have child: "avg_energy ?c < 1 / 10" by simp
  from t1 child have
    c1: "ble_calls ?s1 = ble_calls sys_boot @ [(make_event (main sys_boot) BLE_EVENT_SERVE 0 1150, ble_link sys_boot)]"
    and w1: "waiting_for_response (main ?s1)"
    and e1: "child_speech_time (main ?s1) = end_ms ?c"
    by blast+
  have adult: "\<not> avg_energy ?a < 1 / 10" by simp
  have lat: "start_ms ?a - child_speech_time (main ?s1) = 500"
    by (simp add: e1)
  have le: "start_ms ?a - child_speech_time (main ?s1) \<le> RESPONSE_THRESHOLD_MS"
    by (simp only: lat) (simp add: RESPONSE_THRESHOLD_MS_def)
  from t2 adult w1 le have
    c2: "ble_calls (process_speech_segment ?s1 ?a 2000) =
           ble_calls ?s1 @
             [(make_event (main ?s1) BLE_EVENT_RETURN
                 (real (unat (start_ms ?a - child_speech_time (main ?s1))) / 1000) 2000,
               ble_link ?s1)]"
    and w2: "\<not> waiting_for_response (main (process_speech_segment ?s1 ?a 2000))"
    by (simp_all only: if_True simp_thms)
  have m1: "map (\<lambda>c. event_type (fst c)) (ble_calls ?s1) = [BLE_EVENT_SERVE]"
    by (simp add: c1 sys_boot_simps make_event_fields)
  have m2: "map (\<lambda>c. (event_type (fst c), response_latency (fst c)))
     (ble_calls (process_speech_segment ?s1 ?a 2000)) = [(BLE_EVENT_SERVE, 0), (BLE_EVENT_RETURN, 1 / 2)]"
    by (simp only: c2 lat) (simp add: c1 sys_boot_simps make_event_fields make_event_def)
  show ?thesis
    using child adult m1 m2 w1 w2 e1 by simp
qed

text \<open>
  Claim C3, as amended.  A start command that arrives while no session is active (and after
  \<^verbatim>\<open>audio_init\<close> has succeeded) marks the session active with an event count of 0, clears
  the waiting flag, the speaking flags and the last speech end time, puts the detector in
  Silence with its state start at the current clock reading, its other time stamps at 0, no
  segment ready and the accumulators at 0, and starts the capture.
\<close>

theorem session_start_resets:
  assumes "\<not> session_active (main sys)" "is_initialized (audio sys)"
  shows "session_active (main (on_session_control sys True now now_vad)) \<and>
         session_event_count (main (on_session_control sys True now now_vad)) = 0 \<and>
         \<not> waiting_for_response (main (on_session_control sys True now now_vad)) \<and>
         \<not> last_was_speaking (main (on_session_control sys True now now_vad)) \<and>
         \<not> last_was_child (main (on_session_control sys True now now_vad)) \<and>
         last_speech_end_time (main (on_session_control sys True now now_vad)) = 0 \<and>
         current_state (vad (on_session_control sys True now now_vad)) = VAD_STATE_SILENCE \<and>
         state_start_time (vad (on_session_control sys True now now_vad)) = now_vad \<and>
         last_speech_time (vad (on_session_control sys True now now_vad)) = 0 \<and>
         speech_start_time (vad (on_session_control sys True now now_vad)) = 0 \<and>
         \<not> segment_ready (vad (on_session_control sys True now now_vad)) \<and>
         segment_energy_sum (vad (on_session_control sys True now now_vad)) = 0 \<and>
         segment_frame_count (vad (on_session_control sys True now now_vad)) = 0 \<and>
         is_running (audio (on_session_control sys True now now_vad))"
  using assms
  by (simp add: on_session_control_def Let_def feedback_trigger_def vad_reset_def audio_start_def)

lemma push_samples_flags:
  "is_initialized (push_samples st xs) = is_initialized st \<and>
   is_running (push_samples st xs) = is_running st"
  by (induction xs arbitrary: st) (simp_all add: push_sample_def Let_def)

lemma audio_flags_irrelevant:
  "audio_inv (st\<lparr>is_running := b\<rparr>) = audio_inv st"
  "unread (st\<lparr>is_running := b\<rparr>) = unread st"
  "audio_frames_available (st\<lparr>is_running := b\<rparr>) = audio_frames_available st"
  "audio_frames_available (st\<lparr>current_level := l\<rparr>) = audio_frames_available st"
  by (simp_all add: audio_inv_def unread_def audio_frames_available_def)

lemma sys_prev_audio:
  "unat (audio_frames_available (audio sys_prev)) = 960" "is_initialized (audio sys_prev)"
  "\<not> is_running (audio sys_prev)"
proof -
  let ?st = "audio_boot\<lparr>is_running := True\<rparr>"
  have s: "audio_start audio_boot = ?st"
    by (simp add: audio_start_def audio_boot_simps)
  have inv: "audio_inv ?st" by (simp add: audio_flags_irrelevant audio_boot_inv)
  have "length (unread (push_samples ?st (replicate 960 0))) = 960"
    using push_samples_queue [OF inv, of "replicate 960 0"]
    by (simp add: audio_flags_irrelevant audio_boot_unread length_foldl_queue_push C_val)
  then have a: "unat (audio_frames_available (push_samples ?st (replicate 960 0))) = 960"
    by (simp add: length_unread)
  have p: "audio_process ?st \<lparr>esp_ok = True, bytes_read = 1920, temp_buffer = replicate DMA_BUF_LEN 0\<rparr>
        = (push_samples ?st (replicate 960 0))\<lparr>current_level := calculate_rms (replicate 960 0)\<rparr>"
    by (simp add: audio_process_def Let_def DMA_BUF_LEN_def)
  have au: "audio sys_prev = audio_stop ((push_samples ?st (replicate 960 0))\<lparr>current_level := calculate_rms (replicate 960 0)\<rparr>)"
    by (simp only: sys_prev_def s p system.simps)
  show "unat (audio_frames_available (audio sys_prev)) = 960"
    using a by (simp add: au audio_stop_def audio_flags_irrelevant)
  show "is_initialized (audio sys_prev)"
    by (simp add: au audio_stop_def push_samples_flags audio_boot_simps)
  show "\<not> is_running (audio sys_prev)"
    by (simp add: au audio_stop_def push_samples_flags)
qed

lemma sys_prev_vad:
  "noise_floor (vad sys_prev) = 199 / 20000 + 625 / 204800"
  "pending_segment (vad sys_prev) = \<lparr>start_ms = 1000, end_ms = 1150, duration_ms = 150, avg_energy = 0\<rparr>"
  "current_state (vad sys_prev) = VAD_STATE_SILENCE"
  by (simp_all add: sys_prev_def vad_set_adaptive_def vad_boot_eq vad_eval)

lemma sys_prev_main:
  "\<not> session_active (main sys_prev)" "child_speech_time (main sys_prev) = 1150"
  by (simp_all add: sys_prev_def main_power_on_def)

theorem session_start_resets_witness:
  "\<not> session_active (main sys_prev) \<and> is_initialized (audio sys_prev) \<and>
   session_active (main (on_session_control sys_prev True 9000 9000)) \<and>
   \<not> waiting_for_response (main (on_session_control sys_prev True 9000 9000)) \<and>
   current_state (vad (on_session_control sys_prev True 9000 9000)) = VAD_STATE_SILENCE \<and>
   state_start_time (vad (on_session_control sys_prev True 9000 9000)) = 9000 \<and>
   \<not> segment_ready (vad (on_session_control sys_prev True 9000 9000)) \<and>
   is_running (audio (on_session_control sys_prev True 9000 9000))"
  using session_start_resets [OF sys_prev_main(1) sys_prev_audio(2), of 9000 9000]
    sys_prev_main(1) sys_prev_audio(2)
  by blast

text \<open>
  Claim C3 as stated fails.  Started from the state a stopped session left behind, the new
  session finds the adaptive noise floor (hence the threshold), the pending segment and the
  recorded child time of the old session, none at its initial value, and the 960 samples
  captured and not read before are the first it reads.
\<close>

theorem session_start_keeps_state_counterexample:
  "\<not> session_active (main sys_prev) \<and>
   noise_floor (vad (on_session_control sys_prev True 9000 9000)) \<noteq> noise_floor vad_boot \<and>
   get_effective_threshold (vad (on_session_control sys_prev True 9000 9000)) \<noteq>
     get_effective_threshold (vad_set_adaptive vad_boot True) \<and>
   pending_segment (vad (on_session_control sys_prev True 9000 9000)) \<noteq> pending_segment vad_boot \<and>
   child_speech_time (main (on_session_control sys_prev True 9000 9000)) \<noteq>
     child_speech_time main_power_on \<and>
   unat (audio_frames_available (audio (on_session_control sys_prev True 9000 9000))) = 960 \<and>
   unat (audio_frames_available audio_boot) = 0"
proof -
  have v: "vad (on_session_control sys_prev True 9000 9000) = vad_reset (vad sys_prev) 9000"
    and m: "child_speech_time (main (on_session_control sys_prev True 9000 9000)) =
            child_speech_time (main sys_prev)"
    and a: "audio (on_session_control sys_prev True 9000 9000) = audio_start (audio sys_prev)"
    using sys_prev_main(1)
    by (simp_all add: on_session_control_def Let_def feedback_trigger_def)
  have a': "audio_frames_available (audio_start (audio sys_prev)) = audio_frames_available (audio sys_prev)"
    by (simp add: audio_start_def audio_flags_irrelevant)
  have ad: "adaptive_enabled (vad sys_prev)"
    by (simp add: sys_prev_def vad_set_adaptive_def vad_boot_eq vad_eval)
  have b: "unat (audio_frames_available audio_boot) = 0"
    by (simp add: audio_frames_available_def audio_boot_simps)
  show ?thesis
    using sys_prev_main sys_prev_audio(1) ad b
    by (simp add: v m a a' vad_reset_def sys_prev_vad vad_boot_eq main_power_on_def
        get_effective_threshold_def vad_set_adaptive_def)
qed

text \<open>In the loop, a segment handed out by the detector goes through
  \<^verbatim>\<open>process_speech_segment\<close> in the same pass.\<close>

lemma loop_frame_stage_segment:
  assumes "audio_get_frame (audio sys) (now_frame inp) (Some (frame0 inp)) = (True, fr, a1)"
    and "vad_process (vad sys) fr = (vr, v1)"
    and "vad_get_segment v1 (Some (segment0 inp)) = (True, Some s, v2)"
  shows "ble_calls (loop_frame_stage sys inp) =
           ble_calls (process_speech_segment (sys\<lparr>audio := a1, vad := v2\<rparr>) s (now_segment inp)) \<and>
         waiting_for_response (main (loop_frame_stage sys inp)) =
           waiting_for_response
             (main (process_speech_segment (sys\<lparr>audio := a1, vad := v2\<rparr>) s (now_segment inp)))"
  using assms by (simp add: loop_frame_stage_def Let_def)

subsection \<open>Pitch estimator\<close>










end
